theory Spec2Isabelle
  imports Main "HOL-Library.Sublist"
begin

section \<open>The VOID FORTRESS installer front-end (voidnx-tui.c)\<close>

text \<open>
  A shallow embedding of the ncurses front-end. C strings are byte lists without their
  terminating NUL. Everything the program takes from outside (the effective user id, the
  UEFI probe, the terminal height, the output of spawned commands, the log file, the keys
  and lines typed) is an explicit input; what it does to the outside is recorded as a
  trace of events. The trace holds the writes to stderr and stdout, curses start-up and
  teardown, process spawn and close, the waits for input, and the rows written by the log
  viewer and the command runner, their one-line failure notices included. All other
  drawing (banner, menu, disk labels, prompts, the status page) never feeds back into
  control flow and is not recorded. Signals are outside the model: a run is driven by
  keys and lines alone.
\<close>

subsection \<open>Constants\<close>

definition MAX_PATH :: nat where
  "MAX_PATH = 256"

definition MAX_BUFFER :: nat where
  "MAX_BUFFER = 512"

definition MAX_DISKS :: nat where
  "MAX_DISKS = 32"

definition INT_MIN :: int where
  "INT_MIN = - (2 ^ 31)"

definition INT_MAX :: int where
  "INT_MAX = 2 ^ 31 - 1"

text \<open>The curses key codes \<^verbatim>\<open>KEY_DOWN\<close> (0402) and \<^verbatim>\<open>KEY_UP\<close> (0403).\<close>

definition KEY_DOWN :: int where
  "KEY_DOWN = 258"

definition KEY_UP :: int where
  "KEY_UP = 259"

definition NL :: char where
  "NL = CHR 0x0A"

definition char_code :: "char \<Rightarrow> int" where
  "char_code c = int (of_char c)"

subsection \<open>Session state, environment and world\<close>

record installer_state =
  disk :: string
  hostname :: string
  username :: string
  timezone :: string
  phase :: string
  root_check :: int
  uefi_check :: int

definition initial_state :: installer_state where
  "initial_state =
     \<lparr>disk = '''', hostname = ''void-fortress'', username = ''nx'',
      timezone = ''America/Sao_Paulo'', phase = ''NOT_STARTED'',
      root_check = 0, uefi_check = 0\<rparr>"

datatype event =
    Stderr string
  | Initscr
  | Popen string
  | Pclose
  | Fopen
  | Mvwprintw int string
  | Getch
  | Wgetstr
  | Endwin
  | Stdout string

text \<open>
  What the machine answers: \<open>euid\<close> is \<^verbatim>\<open>geteuid()\<close>, \<open>efi\<close> says that
  \<^verbatim>\<open>access("/sys/firmware/efi", F_OK)\<close> returned 0, \<open>LINES\<close> is the terminal
  height, \<open>popen c\<close> is the standard output of command \<open>c\<close> (\<open>None\<close> when it cannot
  be started) and \<open>log_file\<close> the content of the log (\<open>None\<close> when it cannot be
  opened). \<open>no_terminal\<close> is \<open>Some msg\<close> when curses cannot open the terminal
  (\<^verbatim>\<open>TERM\<close> unset or unknown): \<^verbatim>\<open>initscr()\<close> then writes the line
  \<open>msg\<close> to stderr and ends the process with \<^verbatim>\<open>EXIT_FAILURE\<close>, which is 1.
\<close>

record env =
  euid :: nat
  efi :: bool
  no_terminal :: "string option"
  LINES :: int
  popen :: "string \<Rightarrow> string option"
  log_file :: "string option"

text \<open>
  The mutable part: the global \<^verbatim>\<open>state\<close>, the static \<^verbatim>\<open>selected\<close>
  of the menu, the keys still to be returned by \<^verbatim>\<open>getch\<close>, the lines still to be
  returned by \<^verbatim>\<open>wgetstr\<close>, and the trace so far.
\<close>

record world =
  state :: installer_state
  selected :: int
  keys :: "int list"
  lines :: "string list"
  trace :: "event list"

text \<open>
  A call either returns or stops: \<open>Blocked\<close> when it waits for input that never
  comes, \<open>Buffer_overrun\<close> and \<open>Int_overflow\<close> where C leaves the behaviour
  undefined.
\<close>

datatype halt = Blocked | Buffer_overrun | Int_overflow

datatype 'a res = Ret 'a world | Halt halt world

definition and_then :: "'a res \<Rightarrow> ('a \<Rightarrow> world \<Rightarrow> 'b res) \<Rightarrow> 'b res" where
  "and_then m f = (case m of Ret a w \<Rightarrow> f a w | Halt h w \<Rightarrow> Halt h w)"

definition world_of :: "'a res \<Rightarrow> world" where
  "world_of m = (case m of Ret a w \<Rightarrow> w | Halt h w \<Rightarrow> w)"

definition emit :: "event \<Rightarrow> world \<Rightarrow> world" where
  "emit ev w = w\<lparr>trace := trace w @ [ev]\<rparr>"

text \<open>\<^verbatim>\<open>getch()\<close>: one key, or wait for ever.\<close>

definition getch :: "world \<Rightarrow> int res" where
  "getch w =
     (case keys w of
        [] \<Rightarrow> Halt Blocked (emit Getch w)
      | k # ks \<Rightarrow> Ret k ((emit Getch w)\<lparr>keys := ks\<rparr>))"

text \<open>
  \<^verbatim>\<open>wgetstr(win, buf)\<close> into a buffer of \<open>cap\<close> bytes: the line typed and
  its NUL are stored without any bound, so a line of \<open>cap\<close> bytes or more overruns the
  buffer.
\<close>

definition wgetstr :: "nat \<Rightarrow> world \<Rightarrow> string res" where
  "wgetstr cap w =
     (case lines w of
        [] \<Rightarrow> Halt Blocked (emit Wgetstr w)
      | l # ls \<Rightarrow>
          if length l < cap then Ret l ((emit Wgetstr w)\<lparr>lines := ls\<rparr>)
          else Halt Buffer_overrun ((emit Wgetstr w)\<lparr>lines := ls\<rparr>))"

subsection \<open>Main menu\<close>

definition num_options :: int where
  "num_options = 9"

text \<open>C's \<^verbatim>\<open>%\<close> truncates towards zero.\<close>

definition c_rem :: "int \<Rightarrow> int \<Rightarrow> int" where
  "c_rem a b = sgn a * (\<bar>a\<bar> mod \<bar>b\<bar>)"

text \<open>The \<^verbatim>\<open>switch (ch)\<close> of \<^verbatim>\<open>show_main_menu\<close>, on the pair (selected, choice).\<close>

definition menu_key :: "int \<Rightarrow> int \<times> int \<Rightarrow> int \<times> int" where
  "menu_key ch sc =
     (if ch = KEY_UP then (c_rem (fst sc - 1 + num_options) num_options, snd sc)
      else if ch = KEY_DOWN then (c_rem (fst sc + 1) num_options, snd sc)
      else if ch = char_code NL then (fst sc, fst sc + 1)
      else sc)"

definition show_main_menu :: "int \<Rightarrow> world \<Rightarrow> int res" where
  "show_main_menu choice w =
     and_then (getch w) (\<lambda>ch w1.
       let sc = menu_key ch (selected w1, choice)
       in Ret (snd sc) (w1\<lparr>selected := fst sc\<rparr>))"

subsection \<open>Confirmation dialog\<close>

definition confirm_dialog :: "world \<Rightarrow> int res" where
  "confirm_dialog w =
     and_then (getch w) (\<lambda>ch w1.
       Ret (if ch = char_code CHR ''y'' \<or> ch = char_code CHR ''Y'' then 1 else 0) w1)"

subsection \<open>Reading a stream line by line\<close>

text \<open>
  One \<^verbatim>\<open>fgets(line, n, fp)\<close> takes at most \<open>n - 1\<close> bytes and stops after a
  newline. \<open>fgets_lines n s\<close> is the list of the successive reads of a stream holding
  \<open>s\<close>, up to the read that returns \<^verbatim>\<open>NULL\<close>; a loop
  \<^verbatim>\<open>while (fgets(...) && cond)\<close> is a recursion over it. The program only reads
  with \<open>n = MAX_BUFFER\<close>.
\<close>

definition fgets_len :: "nat \<Rightarrow> string \<Rightarrow> nat" where
  "fgets_len n s = min (n - 1) (Suc (length (takeWhile (\<lambda>c. c \<noteq> NL) s)))"

function fgets_lines :: "nat \<Rightarrow> string \<Rightarrow> string list" where
  "fgets_lines n s =
     (if s = [] \<or> n < 2 then []
      else take (fgets_len n s) s # fgets_lines n (drop (fgets_len n s) s))"
  by pat_completeness auto
termination
  by (relation "measure (\<lambda>(n, s). length s)") (auto simp: fgets_len_def)

declare fgets_lines.simps [simp del]

text \<open>
  \<^verbatim>\<open>fgets\<close> stores the bytes it reads, NUL bytes among them, but the string
  functions and \<^verbatim>\<open>%s\<close> see what a buffer holds only up to its first NUL.
\<close>

definition c_str :: "string \<Rightarrow> string" where
  "c_str buf = takeWhile (\<lambda>c. c \<noteq> CHR 0x00) buf"

text \<open>
  \<^verbatim>\<open>line[strcspn(line, "\n")] = 0\<close> and then \<^verbatim>\<open>%s\<close>: the text shown is the
  line up to its first newline or NUL.
\<close>

definition strip_newline :: "string \<Rightarrow> string" where
  "strip_newline line = takeWhile (\<lambda>c. c \<noteq> NL) (c_str line)"

text \<open>
  \<^verbatim>\<open>strncpy(dst, src, n)\<close> into a field of \<open>n + 1\<close> bytes whose last byte is
  never written and is NUL from static initialisation: the field then holds the first
  \<open>n\<close> bytes of \<open>src\<close>.
\<close>

definition strncpy :: "nat \<Rightarrow> string \<Rightarrow> string" where
  "strncpy n src = take n src"

subsection \<open>Disk selection\<close>

definition lsblk_cmd :: string where
  "lsblk_cmd = ''lsblk -dn -o NAME,SIZE,MODEL 2>/dev/null | head -32''"

text \<open>The first token of \<^verbatim>\<open>strtok(line, " \t")\<close>; \<open>None\<close> is \<^verbatim>\<open>NULL\<close>.\<close>

definition is_delim :: "char \<Rightarrow> bool" where
  "is_delim c = (c = CHR '' '' \<or> c = CHR 0x09)"

definition strtok :: "string \<Rightarrow> string option" where
  "strtok line =
     (let s = dropWhile is_delim (c_str line)
      in if s = [] then None else Some (takeWhile (\<lambda>c. \<not> is_delim c) s))"

text \<open>\<^verbatim>\<open>snprintf(disks[disk_count], MAX_PATH, "/dev/%s", name)\<close>.\<close>

definition dev_path :: "string \<Rightarrow> string" where
  "dev_path name = take (MAX_PATH - 1) (''/dev/'' @ name)"

text \<open>The listing loop, on the reads still to come and the disks found so far.\<close>

fun read_disks :: "string list \<Rightarrow> string list \<Rightarrow> string list" where
  "read_disks [] disks = disks"
| "read_disks (line # rest) disks =
     (if length disks < MAX_DISKS then
        (case strtok line of
           Some name \<Rightarrow> read_disks rest (disks @ [dev_path name])
         | None \<Rightarrow> read_disks rest disks)
      else disks)"

text \<open>
  \<^verbatim>\<open>atoi\<close>: white space is skipped, one sign is taken, then the longest run of
  decimal digits; what follows is ignored, and no digit at all gives 0. The value is the
  mathematical one: C defines the result only when it fits an \<^verbatim>\<open>int\<close>.
\<close>

definition isspace :: "char \<Rightarrow> bool" where
  "isspace c = (of_char c \<in> {9, 10, 11, 12, 13, 32 :: nat})"

definition isdigit :: "char \<Rightarrow> bool" where
  "isdigit c = (48 \<le> (of_char c :: nat) \<and> (of_char c :: nat) \<le> 57)"

definition digits_value :: "string \<Rightarrow> int" where
  "digits_value s = foldl (\<lambda>n c. 10 * n + (char_code c - 48)) 0 (takeWhile isdigit s)"

definition atoi :: "string \<Rightarrow> int" where
  "atoi s =
     (case dropWhile isspace s of
        [] \<Rightarrow> 0
      | c # r \<Rightarrow>
          if c = CHR ''-'' then - digits_value r
          else if c = CHR ''+'' then digits_value r
          else digits_value (c # r))"

definition list_disks :: "env \<Rightarrow> string list" where
  "list_disks e =
     (case popen e lsblk_cmd of
        None \<Rightarrow> []
      | Some out \<Rightarrow> read_disks (fgets_lines MAX_BUFFER out) [])"

text \<open>
  \<^verbatim>\<open>disk_selection\<close>. The answer is read into \<^verbatim>\<open>char input[16]\<close>;
  \<^verbatim>\<open>atoi(input) - 1\<close> is computed in \<^verbatim>\<open>int\<close>.
\<close>

definition disk_selection :: "env \<Rightarrow> world \<Rightarrow> int res" where
  "disk_selection e w =
     (let w1 = emit (Popen lsblk_cmd) w;
          w2 = (case popen e lsblk_cmd of None \<Rightarrow> w1 | Some out \<Rightarrow> emit Pclose w1);
          disks = list_disks e
      in and_then (wgetstr 16 w2) (\<lambda>input w3.
           if atoi input - 1 < INT_MIN \<or> INT_MAX < atoi input then Halt Int_overflow w3
           else
             let choice = atoi input - 1
             in if choice \<ge> 0 \<and> choice < int (length disks)
                then Ret 0 (w3\<lparr>state := (state w3)\<lparr>disk :=
                       strncpy (MAX_PATH - 1) (disks ! nat choice)\<rparr>\<rparr>)
                else Ret (- 1) w3))"

subsection \<open>Status page, log viewer, command runner\<close>

definition show_status :: "world \<Rightarrow> unit res" where
  "show_status w = and_then (getch w) (\<lambda>ch w1. Ret () w1)"

text \<open>
  The second pass of \<^verbatim>\<open>view_log\<close>, on the terminal height, \<^verbatim>\<open>start_line\<close>,
  \<^verbatim>\<open>line_num\<close>, \<^verbatim>\<open>current\<close> and the reads to come: the rows written, and
  \<open>Some Int_overflow\<close> when \<^verbatim>\<open>current++\<close> is reached with \<^verbatim>\<open>current\<close> at
  \<^verbatim>\<open>INT_MAX\<close>. (\<^verbatim>\<open>line_num\<close> stays below \<open>L - 3\<close>.)
\<close>

fun log_loop ::
  "int \<Rightarrow> int \<Rightarrow> int \<Rightarrow> int \<Rightarrow> string list \<Rightarrow> event list \<times> halt option" where
  "log_loop L start_line line_num current [] = ([], None)"
| "log_loop L start_line line_num current (line # rest) =
     (if line_num < L - 3 then
        (if current \<ge> start_line then
           (if current = INT_MAX
            then ([Mvwprintw line_num (strip_newline line)], Some Int_overflow)
            else
              (let r = log_loop L start_line (line_num + 1) (current + 1) rest
               in (Mvwprintw line_num (strip_newline line) # fst r, snd r)))
         else
           (if current = INT_MAX then ([], Some Int_overflow)
            else log_loop L start_line line_num (current + 1) rest))
      else ([], None))"

text \<open>
  \<^verbatim>\<open>view_log\<close>. The first pass counts the reads in the \<^verbatim>\<open>int\<close>
  \<^verbatim>\<open>total_lines\<close>: a log of more than \<^verbatim>\<open>INT_MAX\<close> reads overflows it.
\<close>

definition view_log :: "env \<Rightarrow> world \<Rightarrow> unit res" where
  "view_log e w =
     (let w1 = emit Fopen w
      in case log_file e of
           None \<Rightarrow>
             and_then (getch (emit (Mvwprintw 15 ''No log file found'') w1)) (\<lambda>ch w3. Ret () w3)
         | Some content \<Rightarrow>
             if int (length (fgets_lines MAX_BUFFER content)) > INT_MAX
             then Halt Int_overflow w1
             else
               (let total_lines = int (length (fgets_lines MAX_BUFFER content));
                    start_line = (if total_lines > 20 then total_lines - 20 else 0);
                    r = log_loop (LINES e) start_line 13 0 (fgets_lines MAX_BUFFER content);
                    w2 = w1\<lparr>trace := trace w1 @ fst r\<rparr>
                in case snd r of
                     Some h \<Rightarrow> Halt h w2
                   | None \<Rightarrow> and_then (getch w2) (\<lambda>ch w3. Ret () w3)))"

text \<open>
  The output loop of \<^verbatim>\<open>run_command\<close>, on the terminal height, the row \<open>y\<close> and the
  reads to come: the rows written, and the reads left in the pipe when the loop ends.
  \<^verbatim>\<open>fgets\<close> is called before the row is tested, so the read that finds the screen
  full is taken from the pipe and shown nowhere.
\<close>

fun output_loop :: "int \<Rightarrow> int \<Rightarrow> string list \<Rightarrow> event list \<times> string list" where
  "output_loop L y [] = ([], [])"
| "output_loop L y (line # rest) =
     (if y < L - 3 then
        (let r = output_loop L (y + 1) rest
         in (Mvwprintw y (strip_newline line) # fst r, snd r))
      else ([], rest))"

definition run_command :: "env \<Rightarrow> string \<Rightarrow> world \<Rightarrow> unit res" where
  "run_command e cmd w =
     (let w1 = emit (Popen cmd) w
      in case popen e cmd of
           None \<Rightarrow> Ret () (emit (Mvwprintw 5 ''Error: Failed to execute command'') w1)
         | Some out \<Rightarrow>
             let shown = fst (output_loop (LINES e) 5 (fgets_lines MAX_BUFFER out));
                 w2 = emit Pclose (w1\<lparr>trace := trace w1 @ shown\<rparr>)
             in and_then (getch w2) (\<lambda>ch w3. Ret () w3))"

subsection \<open>The main function\<close>

text \<open>The two prompts of the new-installation branch, read into \<^verbatim>\<open>char buf[MAX_PATH]\<close>.\<close>

definition hostname_prompt :: "world \<Rightarrow> unit res" where
  "hostname_prompt w =
     and_then (wgetstr MAX_PATH w) (\<lambda>buf w1.
       Ret () (if length buf > 0
               then w1\<lparr>state := (state w1)\<lparr>hostname := strncpy (MAX_PATH - 1) buf\<rparr>\<rparr>
               else w1))"

definition username_prompt :: "world \<Rightarrow> unit res" where
  "username_prompt w =
     and_then (wgetstr MAX_PATH w) (\<lambda>buf w1.
       Ret () (if length buf > 0
               then w1\<lparr>state := (state w1)\<lparr>username := strncpy (MAX_PATH - 1) buf\<rparr>\<rparr>
               else w1))"

text \<open>\<^verbatim>\<open>snprintf(cmd, sizeof(cmd), ...)\<close> with \<^verbatim>\<open>char cmd[256]\<close>.\<close>

definition installer_cmd :: "installer_state \<Rightarrow> string" where
  "installer_cmd s =
     take 255 (''DISK='' @ disk s @ '' HOSTNAME='' @ hostname s @ '' USERNAME='' @ username s
               @ '' TIMEZONE='' @ timezone s @ '' bash voidnx.sh'')"

text \<open>\<^verbatim>\<open>case 1\<close> of the switch, before \<^verbatim>\<open>choice = 0\<close>.\<close>

definition new_installation :: "env \<Rightarrow> world \<Rightarrow> unit res" where
  "new_installation e w =
     and_then (disk_selection e w) (\<lambda>r w1.
       if r = 0 then
         and_then (confirm_dialog w1) (\<lambda>c w2.
           if c \<noteq> 0 then
             and_then (hostname_prompt w2) (\<lambda>u w3.
               and_then (username_prompt w3) (\<lambda>u w4.
                 run_command e (installer_cmd (state w4)) w4))
           else Ret () w2)
       else Ret () w1)"

text \<open>The switch on \<^verbatim>\<open>choice\<close>: it returns the new (choice, running).\<close>

definition dispatch :: "env \<Rightarrow> int \<Rightarrow> world \<Rightarrow> (int \<times> int) res" where
  "dispatch e choice w =
     (if choice = 1 then and_then (new_installation e w) (\<lambda>u w1. Ret (0, 1) w1)
      else if choice = 3 then and_then (show_status w) (\<lambda>u w1. Ret (0, 1) w1)
      else if choice = 7 then and_then (view_log e w) (\<lambda>u w1. Ret (0, 1) w1)
      else if choice = 9 then Ret (choice, 0) w
      else Ret (0, 1) w)"

text \<open>
  \<^verbatim>\<open>while (running)\<close>. Every round takes a key in \<^verbatim>\<open>show_main_menu\<close>, and
  no call gives keys back, so the loop ends on every finite supply of keys: with the
  return of \<^verbatim>\<open>main\<close> after Exit, or waiting for a key.
\<close>

function main_loop :: "env \<Rightarrow> int \<Rightarrow> world \<Rightarrow> unit res" where
  "main_loop e choice w =
     (case show_main_menu choice w of
        Halt h w' \<Rightarrow> Halt h w'
      | Ret c1 w1 \<Rightarrow>
          (case dispatch e c1 w1 of
             Halt h w' \<Rightarrow> Halt h w'
           | Ret cr w2 \<Rightarrow> if snd cr \<noteq> 0 then main_loop e (fst cr) w2 else Ret () w2))"
  by pat_completeness auto
termination
proof (relation "measure (\<lambda>(e, c, w). length (keys w))")
  show "wf (measure (\<lambda>(e :: env, c :: int, w). length (keys w)))"
    by simp
next
  fix e :: env and choice :: int and w :: world and c1 w1 cr w2
  assume menu: "show_main_menu choice w = Ret c1 w1"
    and disp: "dispatch e c1 w1 = Ret cr w2"
  have disk_keys: "keys v' = keys v" if "disk_selection e v = Ret r v'" for v v' r
    using that
    by (auto simp: disk_selection_def and_then_def wgetstr_def emit_def Let_def
        split: list.splits if_splits option.splits)
  have run_keys: "length (keys v') \<le> length (keys v)" if "run_command e c v = Ret r v'" for v v' c r
    using that
    by (auto simp: run_command_def and_then_def getch_def emit_def Let_def
        split: list.splits option.splits)
  have log_keys: "length (keys v') \<le> length (keys v)" if "view_log e v = Ret r v'" for v v' r
    using that
    by (auto simp: view_log_def and_then_def getch_def emit_def Let_def
        split: list.splits option.splits if_splits)
  have confirm_keys: "length (keys v') \<le> length (keys v)" if "confirm_dialog v = Ret r v'" for v v' r
    using that by (auto simp: confirm_dialog_def and_then_def getch_def emit_def split: list.splits)
  have host_keys: "keys v' = keys v" if "hostname_prompt v = Ret r v'" for v v' r
    using that
    by (auto simp: hostname_prompt_def and_then_def wgetstr_def emit_def split: list.splits if_splits)
  have user_keys: "keys v' = keys v" if "username_prompt v = Ret r v'" for v v' r
    using that
    by (auto simp: username_prompt_def and_then_def wgetstr_def emit_def split: list.splits if_splits)
  have new_keys: "length (keys v') \<le> length (keys v)" if "new_installation e v = Ret r v'" for v v' r
    using that
    by (auto simp: new_installation_def and_then_def split: res.splits if_splits
        dest!: disk_keys confirm_keys host_keys user_keys run_keys)
  have status_keys: "length (keys v') \<le> length (keys v)" if "show_status v = Ret r v'" for v v' r
    using that by (auto simp: show_status_def and_then_def getch_def emit_def split: list.splits)
  have disp_keys: "length (keys w2) \<le> length (keys w1)"
    using disp
    by (auto simp: dispatch_def and_then_def split: if_splits res.splits
        dest!: new_keys log_keys status_keys)
  have "length (keys w1) < length (keys w)"
    using menu
    by (auto simp: show_main_menu_def and_then_def Let_def getch_def emit_def split: list.splits)
  with disp_keys show "((e, fst cr, w2), (e, choice, w)) \<in> measure (\<lambda>(e, c, w). length (keys w))"
    by simp
qed

declare main_loop.simps [simp del]

text \<open>
  \<^verbatim>\<open>main\<close>, started with the keys and lines the user will type: the process exits
  with a status, or never exits. \<^verbatim>\<open>init_ncurses\<close> starts with \<^verbatim>\<open>initscr()\<close>,
  which ends the process itself when the terminal cannot be opened.
\<close>

datatype outcome = Exited int world | Stopped halt world

definition start :: "int list \<Rightarrow> string list \<Rightarrow> world" where
  "start ks ls = \<lparr>state = initial_state, selected = 0, keys = ks, lines = ls, trace = []\<rparr>"

definition main :: "env \<Rightarrow> int list \<Rightarrow> string list \<Rightarrow> outcome" where
  "main e ks ls =
     (if euid e \<noteq> 0
      then Exited 1 (emit (Stderr (''Error: Must run as root'' @ [NL])) (start ks ls))
      else if \<not> efi e
      then Exited 1 (emit (Stderr (''Error: Boot in UEFI mode required'' @ [NL])) (start ks ls))
      else
        (case no_terminal e of
           Some msg \<Rightarrow> Exited 1 (emit (Stderr msg) (start ks ls))
         | None \<Rightarrow>
             (case main_loop e 0 (emit Initscr (start ks ls)) of
                Ret u w \<Rightarrow>
                  Exited 0 (emit (Stdout (''Thank you for using VOID FORTRESS!'' @ [NL]))
                             (emit Endwin w))
              | Halt h w \<Rightarrow> Stopped h w)))"

subsection \<open>Material for stating the properties\<close>

text \<open>
  A sample machine: root, UEFI, a terminal that opens and has 24 rows, three disks listed,
  no log file, and every other command printing one line.
\<close>

definition example_env :: env where
  "example_env =
     \<lparr>euid = 0, efi = True, no_terminal = None, LINES = 24,
      popen = (\<lambda>c. if c = lsblk_cmd
                    then Some (''sda 500G Samsung'' @ [NL] @ ''sdb 1T WD'' @ [NL] @ ''sdc 2T'' @ [NL])
                    else Some (''done'' @ [NL])),
      log_file = None\<rparr>"

text \<open>
  The specification's notion of a numeric input: an optional sign and then decimal digits,
  nothing else.
\<close>

definition decimal_numeral :: "string \<Rightarrow> bool" where
  "decimal_numeral s =
     (case s of
        [] \<Rightarrow> False
      | c # r \<Rightarrow>
          if c = CHR ''-'' \<or> c = CHR ''+'' then r \<noteq> [] \<and> list_all isdigit r
          else list_all isdigit s)"

text \<open>The command line of the first end-to-end scenario.\<close>

definition installer_cmd_sda :: string where
  "installer_cmd_sda =
     ''DISK=/dev/sda HOSTNAME=void-fortress USERNAME=nx TIMEZONE=America/Sao_Paulo bash voidnx.sh''"

text \<open>Consecutive rows from \<open>y\<close> downwards, one text each.\<close>

fun print_rows :: "int \<Rightarrow> string list \<Rightarrow> event list" where
  "print_rows y [] = []"
| "print_rows y (t # ts) = Mvwprintw y t # print_rows (y + 1) ts"

text \<open>Two logs, of 20 and of 22 one-letter lines.\<close>

definition example_log :: string where
  "example_log = concat (map (\<lambda>c. [c, NL]) ''abcdefghijklmnopqrst'')"

definition long_log :: string where
  "long_log = concat (map (\<lambda>c. [c, NL]) ''abcdefghijklmnopqrstuv'')"

section \<open>Properties\<close>

subsection \<open>The trace\<close>

text \<open>No call removes anything from the trace, whether it returns or stops.\<close>

lemma and_then_trace:
  assumes "\<And>a v. \<exists>tr. trace (world_of (f a v)) = trace v @ tr"
  shows "\<exists>tr. trace (world_of (and_then m f)) = trace (world_of m) @ tr"
  using assms by (cases m) (simp_all add: and_then_def world_of_def)

lemma trace_trans:
  "\<exists>tr. trace b = trace a @ tr \<Longrightarrow> \<exists>tr. trace c = trace b @ tr \<Longrightarrow> \<exists>tr. trace c = trace a @ tr"
  by auto

lemma Ret_trace: "\<exists>tr. trace (world_of (Ret a w)) = trace w @ tr"
  by (simp add: world_of_def)

lemma wait_trace: "\<exists>tr. trace (world_of (and_then (getch w) (\<lambda>ch v. Ret (f ch) v))) = trace w @ tr"
  by (simp add: and_then_def getch_def emit_def world_of_def split: list.splits)

lemma disk_selection_grows: "\<exists>tr. trace (world_of (disk_selection e w)) = trace w @ tr"
  by (auto simp: disk_selection_def Let_def and_then_def wgetstr_def emit_def world_of_def
      split: option.splits list.splits)

lemma confirm_dialog_grows: "\<exists>tr. trace (world_of (confirm_dialog w)) = trace w @ tr"
  unfolding confirm_dialog_def by (rule wait_trace)

lemma hostname_prompt_grows: "\<exists>tr. trace (world_of (hostname_prompt w)) = trace w @ tr"
  by (auto simp: hostname_prompt_def and_then_def wgetstr_def emit_def world_of_def
      split: list.splits)

lemma username_prompt_grows: "\<exists>tr. trace (world_of (username_prompt w)) = trace w @ tr"
  by (auto simp: username_prompt_def and_then_def wgetstr_def emit_def world_of_def
      split: list.splits)

lemma run_command_grows: "\<exists>tr. trace (world_of (run_command e c w)) = trace w @ tr"
  by (auto simp: run_command_def Let_def and_then_def getch_def emit_def world_of_def
      split: option.splits list.splits)

lemma view_log_grows: "\<exists>tr. trace (world_of (view_log e w)) = trace w @ tr"
  by (auto simp: view_log_def Let_def and_then_def getch_def emit_def world_of_def
      split: option.splits list.splits)

lemma show_status_grows: "\<exists>tr. trace (world_of (show_status w)) = trace w @ tr"
  unfolding show_status_def by (rule wait_trace)

lemma show_main_menu_grows: "\<exists>tr. trace (world_of (show_main_menu c w)) = trace w @ tr"
  by (simp add: show_main_menu_def Let_def and_then_def getch_def emit_def world_of_def
      split: list.splits)

lemma new_installation_grows: "\<exists>tr. trace (world_of (new_installation e w)) = trace w @ tr"
proof -
  have run: "\<exists>tr. trace (world_of (and_then (username_prompt v) (\<lambda>u w4.
                 run_command e (installer_cmd (state w4)) w4))) = trace v @ tr" for v
    by (rule trace_trans [OF username_prompt_grows and_then_trace]) (rule run_command_grows)
  have ask: "\<exists>tr. trace (world_of (and_then (hostname_prompt v) (\<lambda>u w3.
               and_then (username_prompt w3) (\<lambda>u w4.
                 run_command e (installer_cmd (state w4)) w4)))) = trace v @ tr" for v
    by (rule trace_trans [OF hostname_prompt_grows and_then_trace]) (rule run)
  have conf: "\<exists>tr. trace (world_of (and_then (confirm_dialog v) (\<lambda>c w2.
           if c \<noteq> 0 then
             and_then (hostname_prompt w2) (\<lambda>u w3.
               and_then (username_prompt w3) (\<lambda>u w4.
                 run_command e (installer_cmd (state w4)) w4))
           else Ret () w2))) = trace v @ tr" for v
    by (rule trace_trans [OF confirm_dialog_grows and_then_trace]) (simp add: ask Ret_trace)
  show ?thesis
    unfolding new_installation_def
    by (rule trace_trans [OF disk_selection_grows and_then_trace]) (simp add: conf Ret_trace)
qed

lemma dispatch_grows: "\<exists>tr. trace (world_of (dispatch e c w)) = trace w @ tr"
proof -
  have "\<exists>tr. trace (world_of (and_then (new_installation e w) (\<lambda>u w1. Ret (0 :: int, 1 :: int) w1)))
      = trace w @ tr"
    by (rule trace_trans [OF new_installation_grows and_then_trace]) (rule Ret_trace)
  moreover have "\<exists>tr. trace (world_of (and_then (show_status w) (\<lambda>u w1. Ret (0 :: int, 1 :: int) w1)))
      = trace w @ tr"
    by (rule trace_trans [OF show_status_grows and_then_trace]) (rule Ret_trace)
  moreover have "\<exists>tr. trace (world_of (and_then (view_log e w) (\<lambda>u w1. Ret (0 :: int, 1 :: int) w1)))
      = trace w @ tr"
    by (rule trace_trans [OF view_log_grows and_then_trace]) (rule Ret_trace)
  ultimately show ?thesis
    by (simp add: dispatch_def Ret_trace)
qed

lemma main_loop_trace: "\<exists>tr. trace (world_of (main_loop e c w)) = trace w @ tr"
proof (induction e c w rule: main_loop.induct)
  case (1 e choice w)
  note menu = show_main_menu_grows [of choice w]
  show ?case
  proof (cases "show_main_menu choice w")
    case (Halt h w')
    then have "main_loop e choice w = Halt h w'"
      by (subst main_loop.simps) simp
    with menu Halt show ?thesis
      by (simp add: world_of_def)
  next
    case (Ret c1 w1)
    with menu have w1: "\<exists>tr. trace w1 = trace w @ tr"
      by (simp add: world_of_def)
    show ?thesis
    proof (cases "dispatch e c1 w1")
      case (Halt h w')
      with Ret have "main_loop e choice w = Halt h w'"
        by (subst main_loop.simps) simp
      moreover from dispatch_grows [of e c1 w1] Halt have "\<exists>tr. trace w' = trace w1 @ tr"
        by (simp add: world_of_def)
      ultimately show ?thesis
        using w1 by (auto simp: world_of_def)
    next
      case disp: (Ret cr w2)
      with dispatch_grows [of e c1 w1] have w2: "\<exists>tr. trace w2 = trace w1 @ tr"
        by (simp add: world_of_def)
      show ?thesis
      proof (cases "snd cr \<noteq> 0")
        case True
        with Ret disp have "main_loop e choice w = main_loop e (fst cr) w2"
          by (subst main_loop.simps) simp
        with "1.IH" [OF Ret disp True] w1 w2 show ?thesis
          by auto
      next
        case False
        with Ret disp have "main_loop e choice w = Ret () w2"
          by (subst main_loop.simps) simp
        with w1 w2 show ?thesis
          by (auto simp: world_of_def)
      qed
    qed
  qed
qed

subsection \<open>Menu navigation\<close>

lemma show_main_menu_key:
  "keys w = k # ks \<Longrightarrow>
   show_main_menu c w =
     Ret (snd (menu_key k (selected w, c)))
         ((emit Getch w)\<lparr>keys := ks, selected := fst (menu_key k (selected w, c))\<rparr>)"
  by (simp add: show_main_menu_def and_then_def getch_def emit_def Let_def)

lemma menu_key_range:
  "0 \<le> fst sc \<Longrightarrow> fst sc \<le> 8 \<Longrightarrow> 0 \<le> fst (menu_key ch sc) \<and> fst (menu_key ch sc) \<le> 8"
  unfolding menu_key_def c_rem_def num_options_def
  by (auto simp: sgn_if)

lemma menu_keys_range:
  "0 \<le> fst sc \<Longrightarrow> fst sc \<le> 8 \<Longrightarrow>
   0 \<le> fst (foldl (\<lambda>s k. menu_key k s) sc ks) \<and> fst (foldl (\<lambda>s k. menu_key k s) sc ks) \<le> 8"
proof (induction ks arbitrary: sc)
  case Nil
  then show ?case by simp
next
  case (Cons k ks)
  from menu_key_range [OF Cons.prems] show ?case
    by (simp add: Cons.IH)
qed

text \<open>
  No call but \<^verbatim>\<open>show_main_menu\<close> touches \<^verbatim>\<open>selected\<close>, whether it
  returns or stops.
\<close>

lemma and_then_selected:
  assumes "\<And>a v. selected (world_of (f a v)) = selected v"
  shows "selected (world_of (and_then m f)) = selected (world_of m)"
  using assms by (cases m) (simp_all add: and_then_def world_of_def)

lemma getch_selected: "selected (world_of (getch w)) = selected w"
  by (simp add: getch_def emit_def world_of_def split: list.splits)

lemma wgetstr_selected: "selected (world_of (wgetstr n w)) = selected w"
  by (simp add: wgetstr_def emit_def world_of_def split: list.splits)

lemma Ret_selected: "selected (world_of (Ret a w)) = selected w"
  by (simp add: world_of_def)

lemma disk_selection_selected: "selected (world_of (disk_selection e w)) = selected w"
  unfolding disk_selection_def Let_def
  by (subst and_then_selected)
    (simp_all add: world_of_def wgetstr_def emit_def split: option.splits list.splits)

lemma confirm_dialog_selected: "selected (world_of (confirm_dialog w)) = selected w"
  unfolding confirm_dialog_def
  by (subst and_then_selected) (simp_all add: Ret_selected getch_selected)

lemma hostname_prompt_selected: "selected (world_of (hostname_prompt w)) = selected w"
  unfolding hostname_prompt_def
  by (subst and_then_selected) (simp_all add: Ret_selected wgetstr_selected)

lemma username_prompt_selected: "selected (world_of (username_prompt w)) = selected w"
  unfolding username_prompt_def
  by (subst and_then_selected) (simp_all add: Ret_selected wgetstr_selected)

lemma run_command_selected: "selected (world_of (run_command e c w)) = selected w"
proof (cases "popen e c")
  case None
  then show ?thesis by (simp add: run_command_def Let_def world_of_def emit_def)
next
  case (Some out)
  then show ?thesis
    unfolding run_command_def Let_def
    by (simp, subst and_then_selected) (simp_all add: Ret_selected getch_selected emit_def)
qed

lemma view_log_selected: "selected (world_of (view_log e w)) = selected w"
  by (auto simp: view_log_def Let_def world_of_def and_then_def getch_def emit_def
      split: option.splits list.splits)

lemma show_status_selected: "selected (world_of (show_status w)) = selected w"
  unfolding show_status_def
  by (subst and_then_selected) (simp_all add: Ret_selected getch_selected)

lemma new_installation_selected: "selected (world_of (new_installation e w)) = selected w"
proof -
  have inner: "selected (world_of (and_then (hostname_prompt v) (\<lambda>u w3.
               and_then (username_prompt w3) (\<lambda>u w4.
                 run_command e (installer_cmd (state w4)) w4)))) = selected v" for v
    by (simp add: and_then_selected run_command_selected username_prompt_selected
        hostname_prompt_selected)
  have conf: "selected (world_of (and_then (confirm_dialog v) (\<lambda>c w2.
           if c \<noteq> 0 then
             and_then (hostname_prompt w2) (\<lambda>u w3.
               and_then (username_prompt w3) (\<lambda>u w4.
                 run_command e (installer_cmd (state w4)) w4))
           else Ret () w2))) = selected v" for v
    by (subst and_then_selected) (simp_all add: inner Ret_selected confirm_dialog_selected)
  show ?thesis
    unfolding new_installation_def
    by (subst and_then_selected) (simp_all add: conf Ret_selected disk_selection_selected)
qed

lemma dispatch_selected: "selected (world_of (dispatch e c w)) = selected w"
  unfolding dispatch_def
  by (simp add: and_then_selected Ret_selected new_installation_selected show_status_selected
      view_log_selected)

lemma show_main_menu_selected:
  "0 \<le> selected w \<Longrightarrow> selected w \<le> 8 \<Longrightarrow>
   0 \<le> selected (world_of (show_main_menu c w)) \<and> selected (world_of (show_main_menu c w)) \<le> 8"
  using menu_key_range [of "(selected w, c)"]
  by (simp add: show_main_menu_def and_then_def getch_def emit_def world_of_def Let_def
      split: list.splits)

lemma main_loop_selected:
  "0 \<le> selected w \<Longrightarrow> selected w \<le> 8 \<Longrightarrow>
   0 \<le> selected (world_of (main_loop e c w)) \<and> selected (world_of (main_loop e c w)) \<le> 8"
proof (induction e c w rule: main_loop.induct)
  case (1 e choice w)
  note menu = show_main_menu_selected [OF "1.prems", of choice]
  show ?case
  proof (cases "show_main_menu choice w")
    case (Halt h w')
    then have "main_loop e choice w = Halt h w'"
      by (subst main_loop.simps) simp
    with menu Halt show ?thesis
      by (simp add: world_of_def)
  next
    case (Ret c1 w1)
    with menu have w1: "0 \<le> selected w1" "selected w1 \<le> 8"
      by (simp_all add: world_of_def)
    show ?thesis
    proof (cases "dispatch e c1 w1")
      case (Halt h w')
      with Ret have "main_loop e choice w = Halt h w'"
        by (subst main_loop.simps) simp
      with dispatch_selected [of e c1 w1] w1 Halt show ?thesis
        by (simp add: world_of_def)
    next
      case disp: (Ret cr w2)
      with dispatch_selected [of e c1 w1] w1 have w2: "0 \<le> selected w2" "selected w2 \<le> 8"
        by (simp_all add: world_of_def)
      show ?thesis
      proof (cases "snd cr \<noteq> 0")
        case True
        with Ret disp have "main_loop e choice w = main_loop e (fst cr) w2"
          by (subst main_loop.simps) simp
        with "1.IH" [OF Ret disp True w2] show ?thesis
          by simp
      next
        case False
        with Ret disp have "main_loop e choice w = Ret () w2"
          by (subst main_loop.simps) simp
        with w2 show ?thesis
          by (simp add: world_of_def)
      qed
    qed
  qed
qed

text \<open>
  C5. The menu starts with \<^verbatim>\<open>selected = 0\<close>. Whatever keys are delivered to it,
  one after the other (Up and Down among them), the selected index stays within 0..8;
  Up at index 0 gives 8 and Down at index 8 gives 0, and neither touches the choice.
  The same bounds hold for the index wherever the whole main loop stops, on every
  supply of keys and lines.
\<close>

theorem menu_selected_in_range_and_wraps:
  "0 \<le> fst (foldl (\<lambda>s k. menu_key k s) (0, c) ks)
   \<and> fst (foldl (\<lambda>s k. menu_key k s) (0, c) ks) \<le> 8
   \<and> menu_key KEY_UP (0, c) = (8, c)
   \<and> menu_key KEY_DOWN (8, c) = (0, c)
   \<and> 0 \<le> selected (world_of (main_loop e 0 (emit Initscr (start ks ls))))
   \<and> selected (world_of (main_loop e 0 (emit Initscr (start ks ls)))) \<le> 8"
proof -
  have "0 \<le> fst (foldl (\<lambda>s k. menu_key k s) (0, c) ks)
        \<and> fst (foldl (\<lambda>s k. menu_key k s) (0, c) ks) \<le> 8"
    by (rule menu_keys_range) simp_all
  moreover have "menu_key KEY_UP (0, c) = (8, c)"
    by (simp add: menu_key_def c_rem_def num_options_def KEY_UP_def)
  moreover have "menu_key KEY_DOWN (8, c) = (0, c)"
    by (simp add: menu_key_def c_rem_def num_options_def KEY_UP_def KEY_DOWN_def)
  moreover have "0 \<le> selected (world_of (main_loop e 0 (emit Initscr (start ks ls))))
        \<and> selected (world_of (main_loop e 0 (emit Initscr (start ks ls)))) \<le> 8"
    by (rule main_loop_selected) (simp_all add: emit_def start_def)
  ultimately show ?thesis by simp
qed

theorem menu_selected_in_range_and_wraps_witness:
  "fst (foldl (\<lambda>s k. menu_key k s) (0, 0) [KEY_UP, KEY_UP, KEY_DOWN, KEY_DOWN, KEY_DOWN]) = 1
   \<and> 0 \<le> fst (foldl (\<lambda>s k. menu_key k s) (0, 0) [KEY_UP, KEY_UP, KEY_DOWN, KEY_DOWN, KEY_DOWN])
   \<and> fst (foldl (\<lambda>s k. menu_key k s) (0, 0) [KEY_UP, KEY_UP, KEY_DOWN, KEY_DOWN, KEY_DOWN]) \<le> 8
   \<and> menu_key KEY_UP (0, 0) = (8, 0)
   \<and> menu_key KEY_DOWN (8, 0) = (0, 0)
   \<and> selected (world_of (main_loop example_env 0
        (emit Initscr (start [KEY_UP, KEY_UP, KEY_DOWN, KEY_DOWN, KEY_DOWN] [])))) = 1"
proof -
  have "fst (foldl (\<lambda>s k. menu_key k s) (0, 0) [KEY_UP, KEY_UP, KEY_DOWN, KEY_DOWN, KEY_DOWN]) = 1"
    by code_simp
  moreover have "selected (world_of (main_loop example_env 0
        (emit Initscr (start [KEY_UP, KEY_UP, KEY_DOWN, KEY_DOWN, KEY_DOWN] [])))) = 1"
    by code_simp
  ultimately show ?thesis
    using menu_selected_in_range_and_wraps
      [where c = 0 and ks = "[KEY_UP, KEY_UP, KEY_DOWN, KEY_DOWN, KEY_DOWN]"]
    by simp
qed

subsection \<open>Primitive steps\<close>

lemma getch_key: "keys w = k # ks \<Longrightarrow> getch w = Ret k ((emit Getch w)\<lparr>keys := ks\<rparr>)"
  by (simp add: getch_def)

lemma wgetstr_line:
  "lines w = l # ls \<Longrightarrow> length l < cap \<Longrightarrow> wgetstr cap w = Ret l ((emit Wgetstr w)\<lparr>lines := ls\<rparr>)"
  by (simp add: wgetstr_def)

lemma example_disks: "list_disks example_env = [''/dev/sda'', ''/dev/sdb'', ''/dev/sdc'']"
  by code_simp

lemma read_disks_length: "length disks \<le> MAX_DISKS \<Longrightarrow> length (read_disks ls disks) \<le> MAX_DISKS"
  by (induction ls disks rule: read_disks.induct) (auto split: option.splits)

lemma read_disks_entries:
  "\<forall>d \<in> set disks. length d < MAX_PATH \<Longrightarrow> \<forall>d \<in> set (read_disks ls disks). length d < MAX_PATH"
  by (induction ls disks rule: read_disks.induct) (auto simp: dev_path_def MAX_PATH_def split: option.splits)

lemma list_disks_length: "length (list_disks e) \<le> MAX_DISKS"
  by (simp add: list_disks_def read_disks_length split: option.splits)

lemma list_disks_entries: "d \<in> set (list_disks e) \<Longrightarrow> length d < MAX_PATH"
  using read_disks_entries [of "[]"] by (auto simp: list_disks_def split: option.splits)

lemma list_disks_unstarted: "popen e lsblk_cmd = None \<Longrightarrow> list_disks e = []"
  by (simp add: list_disks_def)

lemma strncpy_short: "length s < MAX_PATH \<Longrightarrow> strncpy (MAX_PATH - 1) s = s"
  by (simp add: strncpy_def)

lemma disk_selection_chosen:
  assumes "lines w = input # rest" and "length input < 16"
    and "1 \<le> atoi input" and "atoi input \<le> int (length (list_disks e))"
  shows "\<exists>w'. disk_selection e w = Ret 0 w'
           \<and> state w' = (state w)\<lparr>disk := list_disks e ! nat (atoi input - 1)\<rparr>
           \<and> keys w' = keys w \<and> lines w' = rest"
proof -
  have "length (list_disks e) \<le> 32"
    using list_disks_length [of e] by (simp add: MAX_DISKS_def)
  with assms have range: "\<not> (atoi input - 1 < INT_MIN \<or> INT_MAX < atoi input)"
    by (simp add: INT_MIN_def INT_MAX_def)
  have "nat (atoi input - 1) < length (list_disks e)"
    using assms by linarith
  then have "list_disks e ! nat (atoi input - 1) \<in> set (list_disks e)"
    by simp
  then have copy: "strncpy (MAX_PATH - 1) (list_disks e ! nat (atoi input - 1))
      = list_disks e ! nat (atoi input - 1)"
    by (intro strncpy_short list_disks_entries)
  show ?thesis
    using assms range copy
    by (simp add: disk_selection_def Let_def and_then_def wgetstr_def emit_def split: option.splits)
qed

lemma disk_selection_refused:
  assumes "lines w = input # rest" and "length input < 16"
    and "INT_MIN < atoi input" and "atoi input \<le> INT_MAX"
    and "\<not> (1 \<le> atoi input \<and> atoi input \<le> int (length (list_disks e)))"
  shows "\<exists>w'. disk_selection e w = Ret (- 1) w' \<and> state w' = state w
           \<and> keys w' = keys w \<and> lines w' = rest"
  using assms
  by (auto simp: disk_selection_def Let_def and_then_def wgetstr_def emit_def split: option.splits)

subsection \<open>Disk selection\<close>

text \<open>
  C2, as the code has it. For every answer that fits the 16-byte input buffer and whose
  \<^verbatim>\<open>atoi\<close> value \<open>k\<close> is an \<^verbatim>\<open>int\<close> above \<^verbatim>\<open>INT_MIN\<close>: the list has
  at most 32 entries and is empty when the listing command cannot be started;
  \<^verbatim>\<open>disk_selection\<close> returns 0 and sets the disk field to entry \<open>k\<close> of the list
  exactly when \<open>1 \<le> k \<le> N\<close>, and returns -1 with the state untouched otherwise.
  Here \<open>k\<close> is what \<^verbatim>\<open>atoi\<close> reads: leading white space, a sign and a run of
  digits, with anything after them ignored.
\<close>

theorem disk_selection_by_atoi:
  assumes "lines w = input # rest" and "length input < 16"
    and "INT_MIN < atoi input" and "atoi input \<le> INT_MAX"
  shows "length (list_disks e) \<le> MAX_DISKS
    \<and> (popen e lsblk_cmd = None \<longrightarrow> list_disks e = [])
    \<and> (\<exists>w'. disk_selection e w =
           Ret (if 1 \<le> atoi input \<and> atoi input \<le> int (length (list_disks e)) then 0 else - 1) w'
         \<and> state w' =
           (if 1 \<le> atoi input \<and> atoi input \<le> int (length (list_disks e))
            then (state w)\<lparr>disk := list_disks e ! nat (atoi input - 1)\<rparr>
            else state w))
    \<and> (popen e lsblk_cmd = None \<longrightarrow>
         (\<exists>w'. disk_selection e w = Ret (- 1) w' \<and> state w' = state w))"
proof (intro conjI)
  show "length (list_disks e) \<le> MAX_DISKS"
    by (rule list_disks_length)
  show "popen e lsblk_cmd = None \<longrightarrow> list_disks e = []"
    by (simp add: list_disks_unstarted)
  show "\<exists>w'. disk_selection e w =
           Ret (if 1 \<le> atoi input \<and> atoi input \<le> int (length (list_disks e)) then 0 else - 1) w'
         \<and> state w' =
           (if 1 \<le> atoi input \<and> atoi input \<le> int (length (list_disks e))
            then (state w)\<lparr>disk := list_disks e ! nat (atoi input - 1)\<rparr>
            else state w)"
  proof (cases "1 \<le> atoi input \<and> atoi input \<le> int (length (list_disks e))")
    case True
    with disk_selection_chosen [OF assms(1,2), of e] show ?thesis by auto
  next
    case False
    with disk_selection_refused [OF assms, of e] show ?thesis by auto
  qed
  show "popen e lsblk_cmd = None \<longrightarrow>
         (\<exists>w'. disk_selection e w = Ret (- 1) w' \<and> state w' = state w)"
  proof
    assume "popen e lsblk_cmd = None"
    then have "\<not> (1 \<le> atoi input \<and> atoi input \<le> int (length (list_disks e)))"
      by (simp add: list_disks_unstarted)
    with disk_selection_refused [OF assms, of e] show
      "\<exists>w'. disk_selection e w = Ret (- 1) w' \<and> state w' = state w"
      by blast
  qed
qed

theorem disk_selection_by_atoi_witness:
  "lines (start [] [''2'']) = ''2'' # [] \<and> length ''2'' < 16
   \<and> INT_MIN < atoi ''2'' \<and> atoi ''2'' \<le> INT_MAX
   \<and> length (list_disks example_env) = 3
   \<and> (\<exists>w'. disk_selection example_env (start [] [''2'']) = Ret 0 w'
         \<and> state w' = initial_state\<lparr>disk := ''/dev/sdb''\<rparr>)"
proof -
  have a: "atoi ''2'' = 2" by code_simp
  have l: "lines (start [] [''2'']) = ''2'' # []" by (simp add: start_def)
  have s: "state (start [] [''2'']) = initial_state" by (simp add: start_def)
  have r: "INT_MIN < atoi ''2''" "atoi ''2'' \<le> INT_MAX"
    by (simp_all add: a INT_MIN_def INT_MAX_def)
  have n: "length ''2'' < 16" by simp
  from disk_selection_by_atoi [OF l n r, of example_env] r l
  show ?thesis
    by (simp add: a s example_disks)
qed

text \<open>
  C2, as the specification words it, fails: the answer \<open>2abc\<close> is no numeral, yet it
  selects the second of three disks.
\<close>

theorem disk_selection_takes_non_numeral:
  "\<not> decimal_numeral ''2abc''
   \<and> disk_selection example_env (start [] [''2abc'']) =
       Ret 0 \<lparr>state = initial_state\<lparr>disk := ''/dev/sdb''\<rparr>, selected = 0, keys = [], lines = [],
              trace = [Popen lsblk_cmd, Pclose, Wgetstr]\<rparr>"
  by code_simp

text \<open>
  C9. When \<^verbatim>\<open>disk_selection\<close> returns -1 the disk field, and indeed the whole
  session state, is what it was before the call.
\<close>

theorem disk_selection_failure_keeps_state:
  "disk_selection e w = Ret (- 1) w' \<Longrightarrow> disk (state w') = disk (state w) \<and> state w' = state w"
  by (auto simp: disk_selection_def Let_def and_then_def wgetstr_def emit_def
      split: option.splits list.splits if_splits)

theorem disk_selection_failure_keeps_state_witness:
  "\<exists>w'. disk_selection example_env (start [] [''7'']) = Ret (- 1) w'
     \<and> disk (state w') = disk (state (start [] [''7'']))"
proof -
  have a: "atoi ''7'' = 7" by code_simp
  have "\<exists>w'. disk_selection example_env (start [] [''7'']) = Ret (- 1) w' \<and>
    state w' = state (start [] [''7'']) \<and> keys w' = keys (start [] [''7'']) \<and> lines w' = []"
    by (rule disk_selection_refused [where input = "''7''"])
      (simp_all add: a start_def example_disks INT_MIN_def INT_MAX_def)
  then obtain w' where run: "disk_selection example_env (start [] [''7'']) = Ret (- 1) w'"
    by blast
  from disk_selection_failure_keeps_state [OF run] run show ?thesis
    by blast
qed

subsection \<open>Confirmation dialog\<close>

text \<open>
  C10. With key \<open>k\<close> pressed, \<^verbatim>\<open>confirm_dialog\<close> returns 1 when \<open>k\<close> is
  \<open>y\<close> or \<open>Y\<close> and 0 for every other key code, having consumed that one key.
\<close>

theorem confirm_dialog_y_only:
  "confirm_dialog (w\<lparr>keys := k # ks\<rparr>) =
     Ret (if k = char_code CHR ''y'' \<or> k = char_code CHR ''Y'' then 1 else 0)
         ((emit Getch w)\<lparr>keys := ks\<rparr>)"
  by (simp add: confirm_dialog_def and_then_def getch_def emit_def)

theorem confirm_dialog_y_only_witness:
  "confirm_dialog (start [char_code CHR ''y''] []) = Ret 1 ((start [] [])\<lparr>trace := [Getch]\<rparr>)
   \<and> confirm_dialog (start [char_code CHR ''Y''] []) = Ret 1 ((start [] [])\<lparr>trace := [Getch]\<rparr>)
   \<and> confirm_dialog (start [char_code CHR ''n''] []) = Ret 0 ((start [] [])\<lparr>trace := [Getch]\<rparr>)
   \<and> confirm_dialog (start [char_code NL] []) = Ret 0 ((start [] [])\<lparr>trace := [Getch]\<rparr>)
   \<and> confirm_dialog (start [KEY_UP] []) = Ret 0 ((start [] [])\<lparr>trace := [Getch]\<rparr>)
   \<and> confirm_dialog (start [KEY_DOWN] []) = Ret 0 ((start [] [])\<lparr>trace := [Getch]\<rparr>)"
  using confirm_dialog_y_only [where w = "start [] []" and k = "char_code CHR ''y''" and ks = "[]"]
    confirm_dialog_y_only [where w = "start [] []" and k = "char_code CHR ''Y''" and ks = "[]"]
    confirm_dialog_y_only [where w = "start [] []" and k = "char_code CHR ''n''" and ks = "[]"]
    confirm_dialog_y_only [where w = "start [] []" and k = "char_code NL" and ks = "[]"]
    confirm_dialog_y_only [where w = "start [] []" and k = "KEY_UP" and ks = "[]"]
    confirm_dialog_y_only [where w = "start [] []" and k = "KEY_DOWN" and ks = "[]"]
  by (simp add: start_def emit_def char_code_def NL_def KEY_UP_def KEY_DOWN_def)

subsection \<open>The new-installation flow\<close>

lemma hostname_prompt_line:
  assumes "lines w = l # rest" and "length l < MAX_PATH"
  shows "hostname_prompt w =
     Ret () ((emit Wgetstr w)\<lparr>lines := rest,
        state := (if l = [] then state w else (state w)\<lparr>hostname := l\<rparr>)\<rparr>)"
  using assms
  by (simp add: hostname_prompt_def and_then_def wgetstr_def emit_def strncpy_def MAX_PATH_def)

lemma username_prompt_line:
  assumes "lines w = l # rest" and "length l < MAX_PATH"
  shows "username_prompt w =
     Ret () ((emit Wgetstr w)\<lparr>lines := rest,
        state := (if l = [] then state w else (state w)\<lparr>username := l\<rparr>)\<rparr>)"
  using assms
  by (simp add: username_prompt_def and_then_def wgetstr_def emit_def strncpy_def MAX_PATH_def)

lemma confirm_dialog_key:
  "keys w = k # ks \<Longrightarrow>
   confirm_dialog w =
     Ret (if k = char_code CHR ''y'' \<or> k = char_code CHR ''Y'' then 1 else 0)
         ((emit Getch w)\<lparr>keys := ks\<rparr>)"
  by (simp add: confirm_dialog_def and_then_def getch_def)

lemma disk_selection_trace:
  "disk_selection e w = Ret r w' \<Longrightarrow>
   trace w' = trace w @ Popen lsblk_cmd # (if popen e lsblk_cmd = None then [] else [Pclose]) @ [Wgetstr]"
  by (auto simp: disk_selection_def Let_def and_then_def wgetstr_def emit_def
      split: option.splits list.splits if_splits)

lemma disk_selection_frame:
  "disk_selection e w = Ret r w' \<Longrightarrow> state w' = (state w)\<lparr>disk := disk (state w')\<rparr>"
  by (auto simp: disk_selection_def Let_def and_then_def wgetstr_def emit_def
      split: option.splits list.splits if_splits)

text \<open>
  For a line that fits the 256-byte read buffer (at most 255 bytes) the prompts do what is
  expected of them: an empty line leaves the whole session state as it was, and a
  non-empty line becomes the value of the field, byte for byte, with nothing else changed.
\<close>

lemma prompts_keep_or_replace:
  assumes "lines w = l # rest" and "length l < MAX_PATH"
  shows "(\<exists>w'. hostname_prompt w = Ret () w'
            \<and> state w' = (if l = [] then state w else (state w)\<lparr>hostname := l\<rparr>))
       \<and> (\<exists>w'. username_prompt w = Ret () w'
            \<and> state w' = (if l = [] then state w else (state w)\<lparr>username := l\<rparr>))"
  by (simp add: hostname_prompt_line [OF assms] username_prompt_line [OF assms])

text \<open>
  C3 is not what the code does for a line of 256 bytes. The line has as many bytes as
  \<^verbatim>\<open>buf\<close>, so \<^verbatim>\<open>wgetstr\<close>, which has no bound, writes its NUL past the end
  of the buffer; and \<^verbatim>\<open>strncpy(..., MAX_PATH - 1)\<close> keeps the first 255 bytes only,
  which are not the line submitted. So the prompt never returns with the field holding
  that line.
\<close>

theorem overlong_line_is_not_stored:
  "length (replicate 256 CHR ''a'') = MAX_PATH
   \<and> strncpy (MAX_PATH - 1) (replicate 256 CHR ''a'') = replicate 255 CHR ''a''
   \<and> strncpy (MAX_PATH - 1) (replicate 256 CHR ''a'') \<noteq> replicate 256 CHR ''a''
   \<and> \<not> (\<exists>w'. hostname_prompt (start [] [replicate 256 CHR ''a'']) = Ret () w'
              \<and> hostname (state w') = replicate 256 CHR ''a'')"
proof -
  have "strncpy (MAX_PATH - 1) (replicate 256 CHR ''a'') = replicate 255 CHR ''a''"
    by (simp add: strncpy_def MAX_PATH_def)
  moreover have "length (replicate 255 CHR ''a'') \<noteq> length (replicate 256 CHR ''a'')"
    by simp
  then have "replicate 255 CHR ''a'' \<noteq> replicate 256 CHR ''a''"
    by (metis (no_types))
  moreover have "hostname_prompt (start [] [replicate 256 CHR ''a'']) \<noteq> Ret () w'" for w'
    by (simp add: hostname_prompt_def and_then_def wgetstr_def MAX_PATH_def start_def)
  ultimately show ?thesis
    by (simp add: MAX_PATH_def)
qed

text \<open>
  C7. When \<^verbatim>\<open>disk_selection\<close> has returned 0 and the key pressed in the
  confirmation dialog is neither \<open>y\<close> nor \<open>Y\<close>: the switch ends with
  \<^verbatim>\<open>choice = 0\<close> and \<^verbatim>\<open>running = 1\<close>; the session state differs from the
  one before the flow in the disk field only, which is as \<^verbatim>\<open>disk_selection\<close> set
  it; the flow has spawned the disk listing and nothing else, and has read one line and
  one key; and the main loop goes on with the menu.
\<close>

theorem declined_confirmation_runs_nothing:
  assumes sel: "disk_selection e w = Ret 0 w1"
    and key: "keys w1 = k # ks"
    and no: "k \<noteq> char_code CHR ''y''" "k \<noteq> char_code CHR ''Y''"
  shows "dispatch e 1 w = Ret (0, 1) ((emit Getch w1)\<lparr>keys := ks\<rparr>)
    \<and> state ((emit Getch w1)\<lparr>keys := ks\<rparr>) = (state w)\<lparr>disk := disk (state w1)\<rparr>
    \<and> trace ((emit Getch w1)\<lparr>keys := ks\<rparr>) =
        trace w @ Popen lsblk_cmd # (if popen e lsblk_cmd = None then [] else [Pclose])
          @ [Wgetstr, Getch]
    \<and> (show_main_menu c0 w0 = Ret 1 w \<longrightarrow>
         main_loop e c0 w0 = main_loop e 0 ((emit Getch w1)\<lparr>keys := ks\<rparr>))"
proof (intro conjI impI)
  have conf: "confirm_dialog w1 = Ret 0 ((emit Getch w1)\<lparr>keys := ks\<rparr>)"
    using confirm_dialog_key [OF key] no by simp
  show disp: "dispatch e 1 w = Ret (0, 1) ((emit Getch w1)\<lparr>keys := ks\<rparr>)"
    by (simp add: dispatch_def new_installation_def and_then_def sel conf)
  show "state ((emit Getch w1)\<lparr>keys := ks\<rparr>) = (state w)\<lparr>disk := disk (state w1)\<rparr>"
    using disk_selection_frame [OF sel] by (simp add: emit_def)
  show "trace ((emit Getch w1)\<lparr>keys := ks\<rparr>) =
        trace w @ Popen lsblk_cmd # (if popen e lsblk_cmd = None then [] else [Pclose])
          @ [Wgetstr, Getch]"
    using disk_selection_trace [OF sel] by (simp add: emit_def)
  assume "show_main_menu c0 w0 = Ret 1 w"
  then show "main_loop e c0 w0 = main_loop e 0 ((emit Getch w1)\<lparr>keys := ks\<rparr>)"
    by (subst main_loop.simps) (simp add: disp)
qed

theorem declined_confirmation_runs_nothing_witness:
  "show_main_menu 0 (emit Initscr (start [10, 110] [''1''])) =
     Ret 1 \<lparr>state = initial_state, selected = 0, keys = [110], lines = [''1''],
            trace = [Initscr, Getch]\<rparr>
   \<and> disk_selection example_env
        \<lparr>state = initial_state, selected = 0, keys = [110], lines = [''1''],
         trace = [Initscr, Getch]\<rparr> =
     Ret 0 \<lparr>state = initial_state\<lparr>disk := ''/dev/sda''\<rparr>, selected = 0, keys = [110], lines = [],
            trace = [Initscr, Getch, Popen lsblk_cmd, Pclose, Wgetstr]\<rparr>
   \<and> 110 \<noteq> char_code CHR ''y'' \<and> 110 \<noteq> char_code CHR ''Y''
   \<and> dispatch example_env 1
        \<lparr>state = initial_state, selected = 0, keys = [110], lines = [''1''],
         trace = [Initscr, Getch]\<rparr> =
     Ret (0, 1) \<lparr>state = initial_state\<lparr>disk := ''/dev/sda''\<rparr>, selected = 0, keys = [], lines = [],
                 trace = [Initscr, Getch, Popen lsblk_cmd, Pclose, Wgetstr, Getch]\<rparr>
   \<and> main_loop example_env 0 (emit Initscr (start [10, 110] [''1''])) =
     main_loop example_env 0
       \<lparr>state = initial_state\<lparr>disk := ''/dev/sda''\<rparr>, selected = 0, keys = [], lines = [],
        trace = [Initscr, Getch, Popen lsblk_cmd, Pclose, Wgetstr, Getch]\<rparr>"
proof -
  let ?w = "\<lparr>state = initial_state, selected = 0, keys = [110], lines = [''1''],
         trace = [Initscr, Getch]\<rparr>"
  let ?w1 = "\<lparr>state = initial_state\<lparr>disk := ''/dev/sda''\<rparr>, selected = 0, keys = [110], lines = [],
            trace = [Initscr, Getch, Popen lsblk_cmd, Pclose, Wgetstr]\<rparr>"
  have menu: "show_main_menu 0 (emit Initscr (start [10, 110] [''1''])) = Ret 1 ?w"
    by code_simp
  have sel: "disk_selection example_env ?w = Ret 0 ?w1"
    by code_simp
  have key: "keys ?w1 = 110 # []"
    by simp
  have no: "110 \<noteq> char_code CHR ''y''" "110 \<noteq> char_code CHR ''Y''"
    by (simp_all add: char_code_def)
  from declined_confirmation_runs_nothing
    [OF sel key no, of 0 "emit Initscr (start [10, 110] [''1''])"] menu sel no
  show ?thesis
    by (simp add: emit_def)
qed

text \<open>
  C1. Started with host name \<open>void-fortress\<close>, user name \<open>nx\<close> and time zone
  \<open>America/Sao_Paulo\<close>, with three disks listed, an answer that picks
  \<open>/dev/sda\<close>, the key \<open>y\<close> or \<open>Y\<close> at the warning and two empty lines at the
  prompts, the new-installation flow hands \<^verbatim>\<open>run_command\<close> the command line
  \<open>installer_cmd_sda\<close>, which is spawned and contains
  \<open>DISK=/dev/sda HOSTNAME=void-fortress USERNAME=nx TIMEZONE=America/Sao_Paulo\<close>.
\<close>

theorem new_installation_builds_command:
  assumes host: "hostname (state w) = ''void-fortress''"
    and user: "username (state w) = ''nx''"
    and zone: "timezone (state w) = ''America/Sao_Paulo''"
    and three: "length (list_disks e) = 3"
    and typed: "lines w = input # [] # [] # rest"
    and fits: "length input < 16"
    and pick: "1 \<le> atoi input" "atoi input \<le> 3"
    and sda: "list_disks e ! nat (atoi input - 1) = ''/dev/sda''"
    and key: "keys w = k # ks"
    and yes: "k = char_code CHR ''y'' \<or> k = char_code CHR ''Y''"
  shows "(\<exists>w4. new_installation e w = run_command e installer_cmd_sda w4
            \<and> state w4 = (state w)\<lparr>disk := ''/dev/sda''\<rparr>)
    \<and> Popen installer_cmd_sda \<in> set (trace (world_of (new_installation e w)))
    \<and> sublist ''DISK=/dev/sda HOSTNAME=void-fortress USERNAME=nx TIMEZONE=America/Sao_Paulo''
         installer_cmd_sda"
proof -
  from pick three have "atoi input \<le> int (length (list_disks e))"
    by simp
  from disk_selection_chosen [OF typed fits pick(1) this] sda
  obtain w1 where sel: "disk_selection e w = Ret 0 w1"
    and st1: "state w1 = (state w)\<lparr>disk := ''/dev/sda''\<rparr>"
    and k1: "keys w1 = k # ks" and l1: "lines w1 = [] # [] # rest"
    using key by auto
  define w2 where "w2 = (emit Getch w1)\<lparr>keys := ks\<rparr>"
  have conf: "confirm_dialog w1 = Ret 1 w2"
    using confirm_dialog_key [OF k1] yes by (auto simp: w2_def)
  have l2: "lines w2 = [] # [] # rest" and st2: "state w2 = state w1"
    by (simp_all add: w2_def emit_def l1)
  define w3 where "w3 = (emit Wgetstr w2)\<lparr>lines := [] # rest\<rparr>"
  have hostp: "hostname_prompt w2 = Ret () w3"
    using hostname_prompt_line [OF l2] by (simp add: MAX_PATH_def w3_def emit_def)
  have l3: "lines w3 = [] # rest" and st3: "state w3 = state w1"
    by (simp_all add: w3_def emit_def st2)
  define w4 where "w4 = (emit Wgetstr w3)\<lparr>lines := rest\<rparr>"
  have userp: "username_prompt w3 = Ret () w4"
    using username_prompt_line [OF l3] by (simp add: MAX_PATH_def w4_def emit_def)
  have st4: "state w4 = (state w)\<lparr>disk := ''/dev/sda''\<rparr>"
    by (simp add: w4_def emit_def st3 st1)
  have cmd: "installer_cmd (state w4) = installer_cmd_sda"
    by (simp add: st4 installer_cmd_def installer_cmd_sda_def host user zone)
  have run: "new_installation e w = run_command e installer_cmd_sda w4"
    by (simp add: new_installation_def and_then_def sel conf hostp userp cmd)
  have "Popen installer_cmd_sda \<in> set (trace (world_of (run_command e installer_cmd_sda w4)))"
    by (auto simp: run_command_def Let_def world_of_def and_then_def getch_def emit_def
        split: option.splits list.splits)
  moreover have "sublist ''DISK=/dev/sda HOSTNAME=void-fortress USERNAME=nx TIMEZONE=America/Sao_Paulo''
         installer_cmd_sda"
    unfolding installer_cmd_sda_def by (rule prefix_imp_sublist) simp
  ultimately show ?thesis
    using run st4 by auto
qed

theorem new_installation_builds_command_witness:
  "length (list_disks example_env) = 3
   \<and> atoi ''1'' = 1
   \<and> list_disks example_env ! nat (atoi ''1'' - 1) = ''/dev/sda''
   \<and> 121 = char_code CHR ''y''
   \<and> Popen installer_cmd_sda
        \<in> set (trace (world_of (new_installation example_env (start [121, 32] [''1'', '''', '''']))))
   \<and> main example_env [10, 121, 32, KEY_UP, 10] [''1'', '''', ''''] =
       Exited 0
         \<lparr>state = initial_state\<lparr>disk := ''/dev/sda''\<rparr>, selected = 8, keys = [], lines = [],
          trace = [Initscr, Getch, Popen lsblk_cmd, Pclose, Wgetstr, Getch, Wgetstr, Wgetstr,
                   Popen installer_cmd_sda, Mvwprintw 5 ''done'', Pclose, Getch, Getch, Getch,
                   Endwin, Stdout (''Thank you for using VOID FORTRESS!'' @ [NL])]\<rparr>"
proof -
  let ?w = "start [121, 32] [''1'', '''', '''']"
  have a: "atoi ''1'' = 1"
    by code_simp
  have y: "121 = char_code CHR ''y''"
    by (simp add: char_code_def)
  have run: "main example_env [10, 121, 32, KEY_UP, 10] [''1'', '''', ''''] =
       Exited 0
         \<lparr>state = initial_state\<lparr>disk := ''/dev/sda''\<rparr>, selected = 8, keys = [], lines = [],
          trace = [Initscr, Getch, Popen lsblk_cmd, Pclose, Wgetstr, Getch, Wgetstr, Wgetstr,
                   Popen installer_cmd_sda, Mvwprintw 5 ''done'', Pclose, Getch, Getch, Getch,
                   Endwin, Stdout (''Thank you for using VOID FORTRESS!'' @ [NL])]\<rparr>"
    by code_simp
  have "Popen installer_cmd_sda \<in> set (trace (world_of (new_installation example_env ?w)))"
    using new_installation_builds_command
      [of ?w example_env "''1''" "[]" 121 "[32]"]
    by (simp add: start_def initial_state_def example_disks a y)
  with a y run show ?thesis
    by (simp add: example_disks)
qed

subsection \<open>Exit status\<close>

text \<open>
  C8, as the code has it. \<^verbatim>\<open>main\<close> exits with status 1, one error line on stderr
  and nothing else done (curses never started), exactly when the process is not root, or
  the machine is not booted in UEFI mode, or both gates are passed and
  \<^verbatim>\<open>initscr()\<close> cannot open the terminal. Every exit has status 0 or 1; an exit
  with status 0 has a trace that starts with curses start-up and ends with teardown and
  the farewell line, and choosing Exit (Up, then Enter) is one.
\<close>

theorem main_exit_status:
  "((\<exists>w msg. main e ks ls = Exited 1 w \<and> trace w = [Stderr msg])
      \<longleftrightarrow> (euid e \<noteq> 0 \<or> \<not> efi e \<or> no_terminal e \<noteq> None))
   \<and> (euid e \<noteq> 0 \<longrightarrow>
        main e ks ls =
          Exited 1 ((start ks ls)\<lparr>trace := [Stderr (''Error: Must run as root'' @ [NL])]\<rparr>))
   \<and> (euid e = 0 \<and> \<not> efi e \<longrightarrow>
        main e ks ls =
          Exited 1 ((start ks ls)\<lparr>trace := [Stderr (''Error: Boot in UEFI mode required'' @ [NL])]\<rparr>))
   \<and> (euid e = 0 \<and> efi e \<and> no_terminal e = Some msg \<longrightarrow>
        main e ks ls = Exited 1 ((start ks ls)\<lparr>trace := [Stderr msg]\<rparr>))
   \<and> (\<forall>c w. main e ks ls = Exited c w \<longrightarrow>
          (c = 1 \<and> (\<exists>msg. trace w = [Stderr msg]))
          \<or> (c = 0 \<and> (\<exists>tr. trace w =
                 Initscr # tr @ [Endwin, Stdout (''Thank you for using VOID FORTRESS!'' @ [NL])])))
   \<and> (euid e = 0 \<and> efi e \<and> no_terminal e = None \<longrightarrow>
        main e (KEY_UP # char_code NL # ks) ls =
          Exited 0 ((start ks ls)\<lparr>selected := 8,
            trace := [Initscr, Getch, Getch, Endwin,
                      Stdout (''Thank you for using VOID FORTRESS!'' @ [NL])]\<rparr>))"
proof -
  have root: "main e ks ls =
          Exited 1 ((start ks ls)\<lparr>trace := [Stderr (''Error: Must run as root'' @ [NL])]\<rparr>)"
    if "euid e \<noteq> 0"
    using that by (simp add: main_def emit_def start_def)
  have uefi: "main e ks ls =
          Exited 1 ((start ks ls)\<lparr>trace := [Stderr (''Error: Boot in UEFI mode required'' @ [NL])]\<rparr>)"
    if "euid e = 0 \<and> \<not> efi e"
    using that by (simp add: main_def emit_def start_def)
  have noterm: "main e ks ls = Exited 1 ((start ks ls)\<lparr>trace := [Stderr msg]\<rparr>)"
    if "euid e = 0 \<and> efi e \<and> no_terminal e = Some msg" for msg
    using that by (simp add: main_def emit_def start_def)
  have opened: "c = 0 \<and> (\<exists>tr. trace w =
                 Initscr # tr @ [Endwin, Stdout (''Thank you for using VOID FORTRESS!'' @ [NL])])"
    if gates: "euid e = 0" "efi e" "no_terminal e = None" and ex: "main e ks ls = Exited c w"
    for c w
  proof -
    from gates ex obtain w' where
      loop: "main_loop e 0 (emit Initscr (start ks ls)) = Ret () w'"
      and c: "c = 0"
      and w: "w = emit (Stdout (''Thank you for using VOID FORTRESS!'' @ [NL])) (emit Endwin w')"
      by (auto simp: main_def split: res.splits)
    from main_loop_trace [of e 0 "emit Initscr (start ks ls)"] loop
    obtain tr where "trace w' = Initscr # tr"
      by (auto simp: world_of_def emit_def start_def)
    with c w show ?thesis
      by (simp add: emit_def)
  qed
  have every: "(c = 1 \<and> (\<exists>msg. trace w = [Stderr msg]))
          \<or> (c = 0 \<and> (\<exists>tr. trace w =
                 Initscr # tr @ [Endwin, Stdout (''Thank you for using VOID FORTRESS!'' @ [NL])]))"
    if ex: "main e ks ls = Exited c w" for c w
  proof (cases "euid e \<noteq> 0 \<or> \<not> efi e \<or> no_terminal e \<noteq> None")
    case True
    then consider "euid e \<noteq> 0" | "euid e = 0 \<and> \<not> efi e"
      | msg where "euid e = 0 \<and> efi e \<and> no_terminal e = Some msg"
      by auto
    then show ?thesis
    proof cases
      case 1
      from root [OF 1] ex show ?thesis by auto
    next
      case 2
      from uefi [OF 2] ex show ?thesis by auto
    next
      case 3
      from noterm [OF 3] ex show ?thesis by auto
    qed
  next
    case False
    with opened [OF _ _ _ ex] show ?thesis by simp
  qed
  have iff: "(\<exists>w msg. main e ks ls = Exited 1 w \<and> trace w = [Stderr msg])
      \<longleftrightarrow> (euid e \<noteq> 0 \<or> \<not> efi e \<or> no_terminal e \<noteq> None)"
  proof
    assume "\<exists>w msg. main e ks ls = Exited 1 w \<and> trace w = [Stderr msg]"
    then obtain w where ex: "main e ks ls = Exited 1 w"
      by blast
    show "euid e \<noteq> 0 \<or> \<not> efi e \<or> no_terminal e \<noteq> None"
    proof (rule ccontr)
      assume "\<not> (euid e \<noteq> 0 \<or> \<not> efi e \<or> no_terminal e \<noteq> None)"
      with opened [OF _ _ _ ex] show False by simp
    qed
  next
    assume "euid e \<noteq> 0 \<or> \<not> efi e \<or> no_terminal e \<noteq> None"
    then consider "euid e \<noteq> 0" | "euid e = 0 \<and> \<not> efi e"
      | msg where "euid e = 0 \<and> efi e \<and> no_terminal e = Some msg"
      by auto
    then show "\<exists>w msg. main e ks ls = Exited 1 w \<and> trace w = [Stderr msg]"
    proof cases
      case 1
      from root [OF 1] show ?thesis by simp
    next
      case 2
      from uefi [OF 2] show ?thesis by simp
    next
      case 3
      from noterm [OF 3] show ?thesis by simp
    qed
  qed
  have leave: "main e (KEY_UP # char_code NL # ks) ls =
          Exited 0 ((start ks ls)\<lparr>selected := 8,
            trace := [Initscr, Getch, Getch, Endwin,
                      Stdout (''Thank you for using VOID FORTRESS!'' @ [NL])]\<rparr>)"
    if gates: "euid e = 0 \<and> efi e \<and> no_terminal e = None"
  proof -
    let ?w0 = "emit Initscr (start (KEY_UP # char_code NL # ks) ls)"
    let ?w1 = "(start (char_code NL # ks) ls)\<lparr>selected := 8, trace := [Initscr, Getch]\<rparr>"
    let ?w2 = "(start ks ls)\<lparr>selected := 8, trace := [Initscr, Getch, Getch]\<rparr>"
    have up: "show_main_menu 0 ?w0 = Ret 0 ?w1"
      by (simp add: show_main_menu_def and_then_def getch_def emit_def start_def menu_key_def
          c_rem_def num_options_def)
    have enter: "show_main_menu 0 ?w1 = Ret 9 ?w2"
      by (simp add: show_main_menu_def and_then_def getch_def emit_def start_def menu_key_def
          KEY_UP_def KEY_DOWN_def char_code_def NL_def)
    have "main_loop e 0 ?w0 = main_loop e 0 ?w1"
      by (subst main_loop.simps) (simp add: up dispatch_def)
    also have "\<dots> = Ret () ?w2"
      by (subst main_loop.simps) (simp add: enter dispatch_def)
    finally show ?thesis
      using gates by (simp add: main_def emit_def start_def)
  qed
  from iff root uefi noterm every leave show ?thesis
    by blast
qed

theorem main_exit_status_witness:
  "main (example_env\<lparr>euid := 1000\<rparr>) [] [] =
     Exited 1 ((start [] [])\<lparr>trace := [Stderr (''Error: Must run as root'' @ [NL])]\<rparr>)
   \<and> main (example_env\<lparr>efi := False\<rparr>) [] [] =
     Exited 1 ((start [] [])\<lparr>trace := [Stderr (''Error: Boot in UEFI mode required'' @ [NL])]\<rparr>)
   \<and> main (example_env\<lparr>no_terminal := Some ''Error opening terminal: unknown.''\<rparr>) [] [] =
     Exited 1 ((start [] [])\<lparr>trace := [Stderr ''Error opening terminal: unknown.'']\<rparr>)
   \<and> main example_env [KEY_UP, char_code NL] [] =
     Exited 0 ((start [] [])\<lparr>selected := 8,
       trace := [Initscr, Getch, Getch, Endwin,
                 Stdout (''Thank you for using VOID FORTRESS!'' @ [NL])]\<rparr>)"
  using main_exit_status [of "example_env\<lparr>euid := 1000\<rparr>" "[]" "[]"]
    main_exit_status [of "example_env\<lparr>efi := False\<rparr>" "[]" "[]"]
    main_exit_status [of "example_env\<lparr>no_terminal := Some ''Error opening terminal: unknown.''\<rparr>" "[]" "[]"
      "''Error opening terminal: unknown.''"]
    main_exit_status [of example_env "[]" "[]"]
  by (simp add: example_env_def)

text \<open>
  C8, as the specification words it, fails: as root on a UEFI machine, with a terminal
  that curses cannot open, the process writes an error to stderr and exits with status 1
  before any screen exists, and no gate has failed.
\<close>

theorem exit_1_with_both_gates_passed:
  "euid (example_env\<lparr>no_terminal := Some ''Error opening terminal: unknown.''\<rparr>) = 0
   \<and> efi (example_env\<lparr>no_terminal := Some ''Error opening terminal: unknown.''\<rparr>)
   \<and> main (example_env\<lparr>no_terminal := Some ''Error opening terminal: unknown.''\<rparr>) [] [] =
       Exited 1 ((start [] [])\<lparr>trace := [Stderr ''Error opening terminal: unknown.'']\<rparr>)"
  by (simp add: main_def example_env_def emit_def start_def)

subsection \<open>Log viewer and command runner\<close>

lemma fgets_lines_Nil: "fgets_lines n [] = []"
  by (simp add: fgets_lines.simps)

lemma takeWhile_upto: "x \<notin> set l \<Longrightarrow> takeWhile (\<lambda>c. c \<noteq> x) (l @ x # r) = l"
  by (induction l) auto

lemma fgets_lines_terminated:
  "\<forall>l \<in> set ph. NL \<notin> set l \<and> length l + 1 < n \<Longrightarrow>
   fgets_lines n (concat (map (\<lambda>l. l @ [NL]) ph)) = map (\<lambda>l. l @ [NL]) ph"
proof (induction ph)
  case Nil
  then show ?case by (simp add: fgets_lines_Nil)
next
  case (Cons l ph)
  let ?rest = "concat (map (\<lambda>l. l @ [NL]) ph)"
  from Cons.prems have nl: "NL \<notin> set l" and len: "length l + 1 < n"
    by simp_all
  from nl have "takeWhile (\<lambda>c. c \<noteq> NL) (l @ NL # ?rest) = l"
    by (rule takeWhile_upto)
  then have flen: "fgets_len n (l @ NL # ?rest) = Suc (length l)"
    using len by (simp add: fgets_len_def)
  have "fgets_lines n (l @ NL # ?rest) = (l @ [NL]) # fgets_lines n ?rest"
    using len by (subst fgets_lines.simps) (simp add: flen)
  with Cons show ?case by simp
qed

lemma strip_newline_terminated: "NL \<notin> set l \<Longrightarrow> strip_newline (l @ [NL]) = c_str l"
  by (induction l) (auto simp: strip_newline_def c_str_def NL_def)

lemma reads_of_lines:
  assumes "\<forall>l \<in> set ph. NL \<notin> set l \<and> length l + 1 < MAX_BUFFER"
  shows "fgets_lines MAX_BUFFER (concat (map (\<lambda>l. l @ [NL]) ph)) = map (\<lambda>l. l @ [NL]) ph
    \<and> map strip_newline (fgets_lines MAX_BUFFER (concat (map (\<lambda>l. l @ [NL]) ph))) = map c_str ph"
proof -
  have "map strip_newline (map (\<lambda>l. l @ [NL]) ph) = map c_str ph"
    using assms by (simp add: strip_newline_terminated)
  with fgets_lines_terminated [OF assms] show ?thesis
    by simp
qed

lemma log_loop_print:
  "start_line \<le> current \<Longrightarrow> current + int (length ls) \<le> INT_MAX \<Longrightarrow>
   log_loop L start_line line_num current ls =
     (print_rows line_num (map strip_newline (take (nat (L - 3 - line_num)) ls)), None)"
proof (induction ls arbitrary: line_num current)
  case Nil
  then show ?case by simp
next
  case (Cons l ls)
  from Cons.prems have below: "current \<noteq> INT_MAX" and rest: "current + 1 + int (length ls) \<le> INT_MAX"
    by simp_all
  show ?case
  proof (cases "line_num < L - 3")
    case True
    then have "nat (L - 3 - line_num) = Suc (nat (L - 3 - (line_num + 1)))"
      by simp
    with True below Cons.prems Cons.IH [of "current + 1" "line_num + 1"] rest show ?thesis
      by (simp add: Let_def)
  next
    case False
    then show ?thesis by simp
  qed
qed

lemma log_loop_skip:
  "current \<le> start_line \<Longrightarrow> current + int (length ls) \<le> INT_MAX \<Longrightarrow>
   log_loop L start_line line_num current ls =
     (print_rows line_num
        (map strip_newline (take (nat (L - 3 - line_num)) (drop (nat (start_line - current)) ls))),
      None)"
proof (induction ls arbitrary: current)
  case Nil
  then show ?case by simp
next
  case (Cons l ls)
  from Cons.prems have below: "current \<noteq> INT_MAX" and rest: "current + 1 + int (length ls) \<le> INT_MAX"
    by simp_all
  show ?case
  proof (cases "line_num < L - 3")
    case rows: True
    show ?thesis
    proof (cases "current = start_line")
      case True
      then show ?thesis
        using log_loop_print [of start_line current "l # ls" L line_num] Cons.prems by simp
    next
      case False
      with Cons.prems have less: "current < start_line" by simp
      then have "nat (start_line - current) = Suc (nat (start_line - (current + 1)))"
        by simp
      with less rows below rest Cons.IH [of "current + 1"] show ?thesis by simp
    qed
  next
    case False
    then show ?thesis by simp
  qed
qed

lemma output_loop_closed:
  "output_loop L y ls =
     (print_rows y (map strip_newline (take (nat (L - 3 - y)) ls)), drop (Suc (nat (L - 3 - y))) ls)"
proof (induction ls arbitrary: y)
  case Nil
  then show ?case by simp
next
  case (Cons l ls)
  show ?case
  proof (cases "y < L - 3")
    case True
    then have "nat (L - 3 - y) = Suc (nat (L - 3 - (y + 1)))"
      by simp
    with True Cons show ?thesis by (simp add: Let_def)
  next
    case False
    then show ?thesis by simp
  qed
qed

lemma print_rows_range:
  "Mvwprintw r t \<in> set (print_rows y ts) \<Longrightarrow> y \<le> r \<and> r < y + int (length ts)"
  by (induction ts arbitrary: y) fastforce+

lemma wait_key_trace:
  "trace (world_of (and_then (getch w) (\<lambda>ch w'. Ret () w'))) = trace w @ [Getch]"
  by (simp add: and_then_def getch_def emit_def world_of_def split: list.splits)

text \<open>
  C4, as the code has it. Let the log be read by \<^verbatim>\<open>fgets\<close> into the 512-byte
  buffer, \<open>T\<close> reads in all, \<open>T\<close> at most \<^verbatim>\<open>INT_MAX\<close>. The log view writes,
  from row 13 on, the first \<open>LINES - 16\<close> (none when that is negative) of the last
  \<open>min T 20\<close> reads, in their order, each cut at its first newline or NUL, and then
  waits for a key. On a terminal of 36 rows or more these are all of the last
  \<open>min T 20\<close> reads. When every line of the file ends in a newline and has at most 510
  bytes before it, the reads are the lines of the file.
\<close>

theorem view_log_rows:
  assumes logf: "log_file e = Some content"
    and reads: "ls = fgets_lines MAX_BUFFER content"
    and count: "int (length ls) \<le> INT_MAX"
  shows "trace (world_of (view_log e w)) =
           trace w @ Fopen
             # print_rows 13
                 (map strip_newline (take (nat (LINES e - 16)) (drop (length ls - 20) ls)))
             @ [Getch]
    \<and> length (drop (length ls - 20) ls) = min (length ls) 20
    \<and> (36 \<le> LINES e \<longrightarrow>
         take (nat (LINES e - 16)) (drop (length ls - 20) ls) = drop (length ls - 20) ls)
    \<and> (\<forall>ph. content = concat (map (\<lambda>l. l @ [NL]) ph)
              \<and> (\<forall>l \<in> set ph. NL \<notin> set l \<and> length l + 1 < MAX_BUFFER)
           \<longrightarrow> ls = map (\<lambda>l. l @ [NL]) ph \<and> map strip_newline ls = map c_str ph)"
proof -
  have more: "log_loop (LINES e) (int (length ls) - 20) 13 0 ls =
      (print_rows 13 (map strip_newline (take (nat (LINES e - 16)) (drop (length ls - 20) ls))),
       None)"
    if "20 < length ls"
  proof -
    from that have "nat (int (length ls) - 20 - 0) = length ls - 20"
      by (simp add: nat_diff_distrib')
    with log_loop_skip [of 0 "int (length ls) - 20" ls "LINES e" 13] that count show ?thesis
      by simp
  qed
  have fewer: "log_loop (LINES e) 0 13 0 ls =
      (print_rows 13 (map strip_newline (take (nat (LINES e - 16)) (drop (length ls - 20) ls))),
       None)"
    if "\<not> 20 < length ls"
    using log_loop_print [of 0 0 ls "LINES e" 13] that count by simp
  have shown: "trace (world_of (view_log e w)) =
           trace w @ Fopen
             # print_rows 13
                 (map strip_newline (take (nat (LINES e - 16)) (drop (length ls - 20) ls)))
             @ [Getch]"
    using count
    by (simp add: view_log_def Let_def logf reads [symmetric] more fewer wait_key_trace emit_def)
  have last20: "length (drop (length ls - 20) ls) = min (length ls) 20"
    by simp
  have tall: "take (nat (LINES e - 16)) (drop (length ls - 20) ls) = drop (length ls - 20) ls"
    if "36 \<le> LINES e"
    using that by simp
  have physical: "ls = map (\<lambda>l. l @ [NL]) ph \<and> map strip_newline ls = map c_str ph"
    if "content = concat (map (\<lambda>l. l @ [NL]) ph)
          \<and> (\<forall>l \<in> set ph. NL \<notin> set l \<and> length l + 1 < MAX_BUFFER)" for ph
  proof -
    from that have c: "content = concat (map (\<lambda>l. l @ [NL]) ph)"
      and short: "\<forall>l \<in> set ph. NL \<notin> set l \<and> length l + 1 < MAX_BUFFER"
      by simp_all
    show ?thesis
      unfolding reads c by (rule reads_of_lines [OF short])
  qed
  from shown last20 tall physical show ?thesis
    by blast
qed

theorem view_log_rows_witness:
  "log_file (example_env\<lparr>LINES := 40, log_file := Some long_log\<rparr>) = Some long_log
   \<and> length (fgets_lines MAX_BUFFER long_log) = 22
   \<and> int (length (fgets_lines MAX_BUFFER long_log)) \<le> INT_MAX
   \<and> 36 \<le> LINES (example_env\<lparr>LINES := 40, log_file := Some long_log\<rparr>)
   \<and> trace (world_of (view_log (example_env\<lparr>LINES := 40, log_file := Some long_log\<rparr>)
         (start [] []))) =
       Fopen # print_rows 13 (map (\<lambda>c. [c]) ''cdefghijklmnopqrstuv'') @ [Getch]"
proof -
  have ls: "fgets_lines MAX_BUFFER long_log = map (\<lambda>c. [c, NL]) ''abcdefghijklmnopqrstuv''"
    by code_simp
  have count: "int (length (fgets_lines MAX_BUFFER long_log)) \<le> INT_MAX"
    by (simp add: ls INT_MAX_def)
  have "trace (world_of (view_log (example_env\<lparr>LINES := 40, log_file := Some long_log\<rparr>)
         (start [] []))) =
       Fopen # print_rows 13 (map (\<lambda>c. [c]) ''cdefghijklmnopqrstuv'') @ [Getch]"
    using view_log_rows [of "example_env\<lparr>LINES := 40, log_file := Some long_log\<rparr>" long_log
        "fgets_lines MAX_BUFFER long_log" "start [] []"] count
    by (simp add: ls start_def strip_newline_def c_str_def NL_def)
  with count show ?thesis
    by (simp add: ls)
qed

text \<open>
  C4, as the specification words it, fails on a terminal of 24 rows: of a log of 20
  lines the view shows 8, the first 8 and not the last.
\<close>

theorem view_log_on_24_rows:
  "length (fgets_lines MAX_BUFFER example_log) = 20
   \<and> LINES (example_env\<lparr>log_file := Some example_log\<rparr>) = 24
   \<and> trace (world_of (view_log (example_env\<lparr>log_file := Some example_log\<rparr>) (start [] []))) =
       [Fopen, Mvwprintw 13 ''a'', Mvwprintw 14 ''b'', Mvwprintw 15 ''c'', Mvwprintw 16 ''d'',
        Mvwprintw 17 ''e'', Mvwprintw 18 ''f'', Mvwprintw 19 ''g'', Mvwprintw 20 ''h'', Getch]"
  by code_simp

text \<open>
  C6, as the code has it. For a command that could be started, on a terminal of
  \<open>LINES\<close> rows, with the output read by \<^verbatim>\<open>fgets\<close> into the 512-byte buffer:
  the runner writes the first \<open>LINES - 8\<close> reads (none when that is negative) to the
  rows from 5 on, each cut at its first newline or NUL and every one of them on a row
  below \<open>LINES - 3\<close>; then it calls \<^verbatim>\<open>pclose\<close>, and only then waits for the key.
  It stops reading when the rows are used up: the read that finds the screen full is
  dropped, the reads after it are still in the pipe when \<^verbatim>\<open>pclose\<close> is called, and
  nothing is left exactly when the output has at most one read more than the rows can
  show. When every line of the output ends in a newline and has at most 510 bytes before
  it, the reads are the lines of the output.
\<close>

theorem run_command_rows_and_reads:
  assumes spawned: "popen e cmd = Some out"
    and reads: "ls = fgets_lines MAX_BUFFER out"
  shows "trace (world_of (run_command e cmd w)) =
           trace w @ Popen cmd
             # print_rows 5 (map strip_newline (take (nat (LINES e - 8)) ls))
             @ [Pclose, Getch]
    \<and> (\<forall>y t. Mvwprintw y t \<in> set (fst (output_loop (LINES e) 5 ls))
           \<longrightarrow> 5 \<le> y \<and> y < LINES e - 3)
    \<and> snd (output_loop (LINES e) 5 ls) = drop (Suc (nat (LINES e - 8))) ls
    \<and> (snd (output_loop (LINES e) 5 ls) = [] \<longleftrightarrow> length ls \<le> Suc (nat (LINES e - 8)))
    \<and> (\<forall>ph. out = concat (map (\<lambda>l. l @ [NL]) ph)
              \<and> (\<forall>l \<in> set ph. NL \<notin> set l \<and> length l + 1 < MAX_BUFFER)
           \<longrightarrow> ls = map (\<lambda>l. l @ [NL]) ph \<and> map strip_newline ls = map c_str ph)"
proof -
  have loop: "output_loop (LINES e) 5 ls =
      (print_rows 5 (map strip_newline (take (nat (LINES e - 8)) ls)),
       drop (Suc (nat (LINES e - 8))) ls)"
    by (simp add: output_loop_closed)
  have shown: "trace (world_of (run_command e cmd w)) =
           trace w @ Popen cmd
             # print_rows 5 (map strip_newline (take (nat (LINES e - 8)) ls))
             @ [Pclose, Getch]"
    by (simp add: run_command_def Let_def spawned reads [symmetric] loop wait_key_trace emit_def)
  have rows: "5 \<le> y \<and> y < LINES e - 3"
    if "Mvwprintw y t \<in> set (fst (output_loop (LINES e) 5 ls))" for y t
    using print_rows_range [of y t 5 "map strip_newline (take (nat (LINES e - 8)) ls)"] that
    by (auto simp: loop)
  have left: "snd (output_loop (LINES e) 5 ls) = drop (Suc (nat (LINES e - 8))) ls"
    by (simp add: loop)
  have drained: "snd (output_loop (LINES e) 5 ls) = [] \<longleftrightarrow> length ls \<le> Suc (nat (LINES e - 8))"
    by (simp add: loop)
  have physical: "ls = map (\<lambda>l. l @ [NL]) ph \<and> map strip_newline ls = map c_str ph"
    if "out = concat (map (\<lambda>l. l @ [NL]) ph)
          \<and> (\<forall>l \<in> set ph. NL \<notin> set l \<and> length l + 1 < MAX_BUFFER)" for ph
  proof -
    from that have c: "out = concat (map (\<lambda>l. l @ [NL]) ph)"
      and short: "\<forall>l \<in> set ph. NL \<notin> set l \<and> length l + 1 < MAX_BUFFER"
      by simp_all
    show ?thesis
      unfolding reads c by (rule reads_of_lines [OF short])
  qed
  from shown rows left drained physical show ?thesis
    by blast
qed

text \<open>The witness: 20 lines of output on a terminal of 10 rows, where two rows can be written.\<close>

theorem run_command_rows_and_reads_witness:
  "popen (example_env\<lparr>LINES := 10, popen := \<lambda>c. Some example_log\<rparr>) ''true'' = Some example_log
   \<and> fgets_lines MAX_BUFFER example_log = map (\<lambda>c. [c, NL]) ''abcdefghijklmnopqrst''
   \<and> trace (world_of (run_command (example_env\<lparr>LINES := 10, popen := \<lambda>c. Some example_log\<rparr>)
        ''true'' (start [32] []))) =
       [Popen ''true'', Mvwprintw 5 ''a'', Mvwprintw 6 ''b'', Pclose, Getch]
   \<and> snd (output_loop (LINES (example_env\<lparr>LINES := 10, popen := \<lambda>c. Some example_log\<rparr>)) 5
        (fgets_lines MAX_BUFFER example_log)) = map (\<lambda>c. [c, NL]) ''defghijklmnopqrst''
   \<and> snd (output_loop (LINES (example_env\<lparr>LINES := 10, popen := \<lambda>c. Some example_log\<rparr>)) 5
        (fgets_lines MAX_BUFFER example_log)) \<noteq> []"
proof -
  let ?e = "example_env\<lparr>LINES := 10, popen := \<lambda>c. Some example_log\<rparr>"
  have out: "popen ?e ''true'' = Some example_log"
    by simp
  have ls: "fgets_lines MAX_BUFFER example_log = map (\<lambda>c. [c, NL]) ''abcdefghijklmnopqrst''"
    by code_simp
  from run_command_rows_and_reads [OF out refl, of "start [32] []"] out ls
  show ?thesis
    by (simp add: start_def strip_newline_def c_str_def NL_def)
qed

text \<open>
  C6, as the specification words it, fails on a terminal of 24 rows and an output of 20
  lines: 16 lines are shown, one is read and dropped, and three are never read.
\<close>

theorem run_command_leaves_output_unread:
  "popen (example_env\<lparr>popen := \<lambda>c. Some example_log\<rparr>) ''true'' = Some example_log
   \<and> LINES (example_env\<lparr>popen := \<lambda>c. Some example_log\<rparr>) = 24
   \<and> run_command (example_env\<lparr>popen := \<lambda>c. Some example_log\<rparr>) ''true'' (start [32] []) =
       Ret () ((start [] [])\<lparr>trace :=
         [Popen ''true'', Mvwprintw 5 ''a'', Mvwprintw 6 ''b'', Mvwprintw 7 ''c'', Mvwprintw 8 ''d'',
          Mvwprintw 9 ''e'', Mvwprintw 10 ''f'', Mvwprintw 11 ''g'', Mvwprintw 12 ''h'',
          Mvwprintw 13 ''i'', Mvwprintw 14 ''j'', Mvwprintw 15 ''k'', Mvwprintw 16 ''l'',
          Mvwprintw 17 ''m'', Mvwprintw 18 ''n'', Mvwprintw 19 ''o'', Mvwprintw 20 ''p'',
          Pclose, Getch]\<rparr>)
   \<and> snd (output_loop 24 5 (fgets_lines MAX_BUFFER example_log)) = [[CHR ''r'', NL], [CHR ''s'', NL], [CHR ''t'', NL]]"
  by code_simp

end
